theory Spec2Isabelle
  imports Complex_Main "HOL-Library.AList"
begin

section \<open>Application constants\<close>

text \<open>
  The entries of \<^verbatim>\<open>APP_CONSTANTS\<close> that the cache and the stock fetch use.
  Durations are milliseconds.
\<close>

definition STOCK_DURATION :: int where "STOCK_DURATION = 60000"
definition MOCK_DURATION :: int where "MOCK_DURATION = 30000"
definition ERROR_DURATION :: int where "ERROR_DURATION = 10000"
definition MAX_SIZE :: int where "MAX_SIZE = 100"
definition MAX_SYMBOL_LENGTH :: nat where "MAX_SYMBOL_LENGTH = 10"
definition MAX_INPUT_LENGTH :: nat where "MAX_INPUT_LENGTH = 50"

section \<open>CacheManager\<close>

text \<open>
  A JavaScript value as far as the cache looks at it: \<^verbatim>\<open>undefined\<close> (rejected by
  \<^verbatim>\<open>set\<close>), \<^verbatim>\<open>null\<close> (what \<^verbatim>\<open>get\<close> returns for "not found") and any
  other value.
\<close>

datatype 'a jsval = Undefined | Null | Val 'a

text \<open>
  A JavaScript \<^verbatim>\<open>Map\<close> iterates in insertion order, and \<^verbatim>\<open>Map.set\<close> on a key
  that is present keeps the key's position. An association list with
  \<^const>\<open>AList.update\<close> (replace in place, else append) and \<^const>\<open>AList.delete\<close> is
  exactly that; \<^verbatim>\<open>Map.size\<close> is the length of the list, \<^verbatim>\<open>keys().next().value\<close>
  its first key.

  The two maps of the class are kept apart, as in the source. Keys are strings, times and
  durations are integers (milliseconds); \<^verbatim>\<open>Date.now()\<close> is the argument \<open>now\<close> of
  every operation that reads the clock.
\<close>

record 'a CacheManager =
  cache :: "(string \<times> 'a jsval) list"
  timestamps :: "(string \<times> int) list"
  hitCount :: nat
  missCount :: nat
  maxSize :: int
  defaultDuration :: int

record CacheOptions =
  opt_maxSize :: "int option"
  opt_defaultDuration :: "int option"

text \<open>\<^verbatim>\<open>options.maxSize || MAX_SIZE\<close>: an absent or zero option takes the default.\<close>

definition new_CacheManager :: "CacheOptions \<Rightarrow> 'a CacheManager" where
  "new_CacheManager options =
     \<lparr> cache = [], timestamps = [], hitCount = 0, missCount = 0,
       maxSize = (case opt_maxSize options of
                    None \<Rightarrow> MAX_SIZE
                  | Some m \<Rightarrow> if m = 0 then MAX_SIZE else m),
       defaultDuration = (case opt_defaultDuration options of
                    None \<Rightarrow> 300000
                  | Some d \<Rightarrow> if d = 0 then 300000 else d) \<rparr>"

definition CacheManager_delete :: "'a CacheManager \<Rightarrow> string \<Rightarrow> bool \<times> 'a CacheManager" where
  "CacheManager_delete c key =
     (if key \<in> fst ` set (cache c)
      then (True, c\<lparr> cache := AList.delete key (cache c),
                     timestamps := AList.delete key (timestamps c) \<rparr>)
      else (False, c))"

definition CacheManager_clear :: "'a CacheManager \<Rightarrow> 'a CacheManager" where
  "CacheManager_clear c = c\<lparr> cache := [], timestamps := [], hitCount := 0, missCount := 0 \<rparr>"

text \<open>
  The \<^verbatim>\<open>while\<close> loop of \<^verbatim>\<open>enforceMaxSize\<close>: it stops when the size is below
  the bound, and breaks when the first key is \<^verbatim>\<open>undefined\<close> (empty map) or falsy
  (the empty string).
\<close>

function enforceMaxSize :: "'a CacheManager \<Rightarrow> 'a CacheManager" where
  "enforceMaxSize c =
     (if maxSize c \<le> int (length (cache c))
      then (case cache c of
              [] \<Rightarrow> c
            | (oldestKey, _) # _ \<Rightarrow>
                if oldestKey = [] then c
                else enforceMaxSize (snd (CacheManager_delete c oldestKey)))
      else c)"
  by pat_completeness auto
termination
proof (relation "measure (\<lambda>c. length (cache c))")
  show "wf (measure (\<lambda>c::'a CacheManager. length (cache c)))" by simp
next
  fix c :: "'a CacheManager" and x21 :: "string \<times> 'a jsval" and x22 x y
  assume "cache c = x21 # x22" and "(x, y) = x21"
  then have "cache c = (x, y) # x22" by simp
  then have "length (AList.delete x (cache c)) \<le> length x22"
    by (simp add: AList.delete_eq le_trans [OF length_filter_le])
  with \<open>cache c = (x, y) # x22\<close>
  show "(snd (CacheManager_delete c x), c) \<in> measure (\<lambda>c. length (cache c))"
    by (simp add: CacheManager_delete_def)
qed

definition CacheManager_set ::
  "'a CacheManager \<Rightarrow> string \<Rightarrow> 'a jsval \<Rightarrow> int option \<Rightarrow> int \<Rightarrow> bool \<times> 'a CacheManager" where
  "CacheManager_set c key val duration now =
     (if key = [] \<or> val = Undefined then (False, c)
      else
        let c1 = enforceMaxSize c;
            d = (case duration of None \<Rightarrow> defaultDuration c | Some d \<Rightarrow> d);
            expirationTime = now + d
        in (True, c1\<lparr> cache := AList.update key val (cache c1),
                       timestamps := AList.update key expirationTime (timestamps c1) \<rparr>))"

text \<open>
  \<^verbatim>\<open>get\<close>: a falsy or absent key is a miss. Otherwise the entry is live when its
  expiration time is truthy (neither \<^verbatim>\<open>undefined\<close> nor zero) and later than
  \<open>now\<close>; an entry that is not live is deleted and counted as a miss.
\<close>

definition CacheManager_get :: "'a CacheManager \<Rightarrow> string \<Rightarrow> int \<Rightarrow> 'a jsval \<times> 'a CacheManager" where
  "CacheManager_get c key now =
     (if key = [] \<or> key \<notin> fst ` set (cache c)
      then (Null, c\<lparr> missCount := missCount c + 1 \<rparr>)
      else
        let expired = (let c1 = snd (CacheManager_delete c key)
                       in (Null, c1\<lparr> missCount := missCount c1 + 1 \<rparr>))
        in (case map_of (timestamps c) key of
              None \<Rightarrow> expired
            | Some expirationTime \<Rightarrow>
                if expirationTime \<noteq> 0 \<and> now < expirationTime
                then (case map_of (cache c) key of None \<Rightarrow> Undefined | Some v \<Rightarrow> v,
                      c\<lparr> hitCount := hitCount c + 1 \<rparr>)
                else expired))"

definition CacheManager_has :: "'a CacheManager \<Rightarrow> string \<Rightarrow> int \<Rightarrow> bool \<times> 'a CacheManager" where
  "CacheManager_has c key now =
     (case CacheManager_get c key now of (v, c') \<Rightarrow> (v \<noteq> Null, c'))"

text \<open>
  \<^verbatim>\<open>cleanup\<close> walks the entries of \<^verbatim>\<open>timestamps\<close> and deletes the expired ones.
  A deletion removes at most the entry the iterator is on, so the live iteration of the
  JavaScript \<^verbatim>\<open>Map\<close> visits exactly the entries present at the start.
\<close>

definition CacheManager_cleanup :: "'a CacheManager \<Rightarrow> int \<Rightarrow> 'a CacheManager" where
  "CacheManager_cleanup c now =
     fold (\<lambda>(key, expirationTime) c'.
             if expirationTime \<le> now then snd (CacheManager_delete c' key) else c')
          (timestamps c) c"

text \<open>The two maps of a cache hold the same keys.\<close>

definition same_keys :: "'a CacheManager \<Rightarrow> bool" where
  "same_keys c \<longleftrightarrow> fst ` set (cache c) = fst ` set (timestamps c)"


text \<open>
  The shape of a cache that the class can reach: each map holds a key once, and the
  empty key, which \<^verbatim>\<open>set\<close> turns away, is not stored.
\<close>

definition well_formed :: "'a CacheManager \<Rightarrow> bool" where
  "well_formed c \<longleftrightarrow>
     distinct (map fst (cache c)) \<and> distinct (map fst (timestamps c))
     \<and> [] \<notin> fst ` set (cache c)"

section \<open>SecurityManager\<close>

text \<open>
  A \<^typ>\<open>string\<close> stands for a JavaScript string whose code units lie in
  U+0000..U+00FF, one \<^typ>\<open>char\<close> per code unit. The character classes below are the
  ones of the source's regular expressions on that range: \<^verbatim>\<open>\w\<close> is
  \<^verbatim>\<open>[A-Za-z0-9_]\<close>; \<^verbatim>\<open>\s\<close> and \<^verbatim>\<open>trim()\<close> take TAB, LF, VT, FF, CR,
  SPACE and NBSP; with the flag \<^verbatim>\<open>i\<close> a letter of a pattern matches both of its
  cases and nothing else.
\<close>

definition code :: "char \<Rightarrow> nat" where
  "code c = of_char c"

definition isUpper :: "char \<Rightarrow> bool" where
  "isUpper c \<longleftrightarrow> 65 \<le> code c \<and> code c \<le> 90"

definition isLower :: "char \<Rightarrow> bool" where
  "isLower c \<longleftrightarrow> 97 \<le> code c \<and> code c \<le> 122"

definition isDigit :: "char \<Rightarrow> bool" where
  "isDigit c \<longleftrightarrow> 48 \<le> code c \<and> code c \<le> 57"

definition isWordChar :: "char \<Rightarrow> bool" where
  "isWordChar c \<longleftrightarrow> isUpper c \<or> isLower c \<or> isDigit c \<or> code c = 95"

definition isSpace :: "char \<Rightarrow> bool" where
  "isSpace c \<longleftrightarrow> (9 \<le> code c \<and> code c \<le> 13) \<or> code c = 32 \<or> code c = 160"

definition isControl :: "char \<Rightarrow> bool" where
  "isControl c \<longleftrightarrow> code c \<le> 31 \<or> code c = 127"

text \<open>\<^verbatim>\<open>[<>"'`]\<close>\<close>

definition isInjectionChar :: "char \<Rightarrow> bool" where
  "isInjectionChar c \<longleftrightarrow> code c \<in> {60, 62, 34, 39, 96}"

text \<open>The canonical form of a code unit under the flag \<^verbatim>\<open>i\<close>.\<close>

definition canonicalize :: "char \<Rightarrow> char" where
  "canonicalize c = (if isLower c then char_of (code c - 32) else c)"

text \<open>
  \<^verbatim>\<open>String.prototype.toUpperCase\<close>: the ASCII and Latin-1 small letters go to their
  capitals and the sharp s (U+00DF) becomes \<^verbatim>\<open>SS\<close>. The capitals of U+00B5 and U+00FF
  lie above U+00FF; the model leaves these two units as they are: neither they nor their
  capitals are removed by \<^verbatim>\<open>sanitizeInput\<close> or accepted by the symbol pattern.
\<close>

definition upperCaseUnit :: "char \<Rightarrow> string" where
  "upperCaseUnit c =
     (if isLower c then [char_of (code c - 32)]
      else if code c = 223 then ''SS''
      else if 224 \<le> code c \<and> code c \<le> 254 \<and> code c \<noteq> 247 then [char_of (code c - 32)]
      else [c])"

definition toUpperCase :: "string \<Rightarrow> string" where
  "toUpperCase s = concat (map upperCaseUnit s)"

text \<open>
  \<^verbatim>\<open>s.replace(/re/g, '')\<close> for a regular expression that matches no empty string:
  \<open>m\<close> gives the length of the match that starts at the head of its argument, \<open>0\<close> for
  no match. The scan goes left to right, skips a match and resumes behind it.
\<close>

fun removeMatches :: "(string \<Rightarrow> nat) \<Rightarrow> nat \<Rightarrow> string \<Rightarrow> string" where
  "removeMatches m skip [] = []"
| "removeMatches m skip (c # cs) =
     (if 0 < skip then removeMatches m (skip - 1) cs
      else (case m (c # cs) of
              0 \<Rightarrow> c # removeMatches m 0 cs
            | Suc n \<Rightarrow> removeMatches m n cs))"

text \<open>A literal pattern under the flag \<^verbatim>\<open>i\<close>.\<close>

definition matchLiteral :: "string \<Rightarrow> string \<Rightarrow> nat" where
  "matchLiteral p s =
     (if length p \<le> length s \<and> map canonicalize (take (length p) s) = map canonicalize p
      then length p else 0)"

text \<open>
  \<^verbatim>\<open>/on\w+\s*=/i\<close>. The three classes \<^verbatim>\<open>\w\<close>, \<^verbatim>\<open>\s\<close> and \<^verbatim>\<open>=\<close> are
  disjoint, so the greedy match is the only one: the longest run of word characters,
  at least one, the longest run of white space, then the equals sign.
\<close>

definition matchEventHandler :: "string \<Rightarrow> nat" where
  "matchEventHandler s =
     (if matchLiteral ''on'' s = 0 then 0
      else
        let r1 = drop 2 s;
            w = takeWhile isWordChar r1;
            r2 = dropWhile isWordChar r1;
            sp = takeWhile isSpace r2;
            r3 = dropWhile isSpace r2
        in (case r3 of
              [] \<Rightarrow> 0
            | e # _ \<Rightarrow> if w \<noteq> [] \<and> code e = 61 then 2 + length w + length sp + 1 else 0))"

definition trim :: "string \<Rightarrow> string" where
  "trim s = rev (dropWhile isSpace (rev (dropWhile isSpace s)))"

text \<open>
  \<^verbatim>\<open>sanitizeInput\<close> on a string; \<open>maxLength\<close> is \<^verbatim>\<open>options.maxLength\<close>, absent
  or zero for the default.
\<close>

definition sanitizeInput :: "string \<Rightarrow> nat option \<Rightarrow> string" where
  "sanitizeInput input maxLengthOption =
     (let maxLength = (case maxLengthOption of
                         None \<Rightarrow> MAX_INPUT_LENGTH
                       | Some n \<Rightarrow> if n = 0 then MAX_INPUT_LENGTH else n);
          s1 = filter (\<lambda>c. \<not> isInjectionChar c) input;
          s2 = removeMatches (matchLiteral ''javascript:'') 0 s1;
          s3 = removeMatches (matchLiteral ''data:'') 0 s2;
          s4 = removeMatches (matchLiteral ''vbscript:'') 0 s3;
          s5 = removeMatches matchEventHandler 0 s4;
          s6 = filter (\<lambda>c. \<not> isControl c) s5
      in take maxLength (trim s6))"

text \<open>\<^verbatim>\<open>/^[A-Za-z.]{1,10}$/\<close>\<close>

definition STOCK_SYMBOL_PATTERN :: "string \<Rightarrow> bool" where
  "STOCK_SYMBOL_PATTERN s \<longleftrightarrow>
     1 \<le> length s \<and> length s \<le> 10 \<and> (\<forall>c \<in> set s. isUpper c \<or> isLower c \<or> code c = 46)"

text \<open>
  \<^verbatim>\<open>validateStockSymbol\<close> on a string; \<^verbatim>\<open>validateInput(symbol, 'stock_symbol')\<close>
  is this function (its \<^verbatim>\<open>try\<close> has nothing to catch on a string).
\<close>

definition validateStockSymbol :: "string \<Rightarrow> bool" where
  "validateStockSymbol symbol =
     (if symbol = [] then False
      else
        let sanitized = sanitizeInput (toUpperCase symbol) None
        in STOCK_SYMBOL_PATTERN sanitized \<and> 1 \<le> length sanitized
           \<and> length sanitized \<le> MAX_SYMBOL_LENGTH)"


section \<open>JavaScript numbers\<close>

text \<open>
  A JavaScript number is an IEEE 754 double. A finite double is modelled by its value,
  a rational number, and every arithmetic operation gives the exact result rounded to
  the nearest double, a tie going to the even significand. \<open>bitLength n\<close> is the
  number of binary digits of a positive integer, \<open>pow2 e\<close> is two to the power \<open>e\<close>,
  and \<open>exponentOf x\<close> is the exponent of the power of two at or below the magnitude of
  \<open>x\<close>: the quotient of two integers of \<open>a\<close> and \<open>b\<close> digits lies between the powers
  \<open>a - b - 1\<close> and \<open>a - b + 1\<close>.
\<close>

type_synonym double = rat

function bitLength :: "int \<Rightarrow> int" where
  "bitLength n = (if n \<le> 0 then 0 else 1 + bitLength (n div 2))"
  by pat_completeness auto
termination
  by (relation "measure nat") auto

function pow2 :: "int \<Rightarrow> rat" where
  "pow2 e = (if e = 0 then 1 else if 0 < e then 2 * pow2 (e - 1) else pow2 (e + 1) / 2)"
  by pat_completeness auto
termination
  by (relation "measure (\<lambda>e. nat \<bar>e\<bar>)") auto

definition exponentOf :: "rat \<Rightarrow> int" where
  "exponentOf x =
     (case quotient_of \<bar>x\<bar> of (p, q) \<Rightarrow>
        let e0 = bitLength p - bitLength q
        in if pow2 e0 \<le> \<bar>x\<bar> then e0 else e0 - 1)"

definition roundHalfEven :: "rat \<Rightarrow> int" where
  "roundHalfEven x =
     (let f = \<lfloor>x\<rfloor>; d = x - of_int f
      in if d < 1 / 2 then f else if 1 / 2 < d then f + 1 else if even f then f else f + 1)"

text \<open>
  Rounding to the format: 53 significant binary digits, and below the exponent
  \<open>-1022\<close> the fixed spacing of the subnormal numbers. A result whose magnitude
  reaches \<open>pow2 1024\<close> stands for an overflow, which the operations below that can
  overflow turn into \<^verbatim>\<open>Infinity\<close>.
\<close>

definition toDouble :: "rat \<Rightarrow> double" where
  "toDouble x =
     (if x = 0 then 0
      else let e = max (exponentOf x) (- 1022); ulp = pow2 (e - 52)
           in of_int (roundHalfEven (x / ulp)) * ulp)"

definition jsAdd :: "double \<Rightarrow> double \<Rightarrow> double" where
  "jsAdd a b = toDouble (a + b)"

definition jsSub :: "double \<Rightarrow> double \<Rightarrow> double" where
  "jsSub a b = toDouble (a - b)"

definition jsMul :: "double \<Rightarrow> double \<Rightarrow> double" where
  "jsMul a b = toDouble (a * b)"

definition jsDiv :: "double \<Rightarrow> double \<Rightarrow> double" where
  "jsDiv a b = toDouble (a / b)"

text \<open>
  A number that is a finite double or \<^verbatim>\<open>Infinity\<close> (\<open>None\<close>): the sum of positive
  doubles, and its comparison with a finite bound.
\<close>

definition jsAddOrInfinity :: "double option \<Rightarrow> double \<Rightarrow> double option" where
  "jsAddOrInfinity a b =
     (case a of
        None \<Rightarrow> None
      | Some x \<Rightarrow> let s = toDouble (x + b) in if pow2 1024 \<le> s then None else Some s)"

definition exceeds :: "double option \<Rightarrow> double \<Rightarrow> bool" where
  "exceeds a bound = (case a of None \<Rightarrow> True | Some x \<Rightarrow> bound < x)"

section \<open>PerformanceMonitor\<close>

text \<open>
  A thrown JavaScript error, by the name of its class, with its \<^verbatim>\<open>message\<close>.
\<close>

datatype js_error = Error string | TypeError string | TimeoutError string | SyntaxError string

fun message :: "js_error \<Rightarrow> string" where
  "message (Error m) = m"
| "message (TypeError m) = m"
| "message (TimeoutError m) = m"
| "message (SyntaxError m) = m"

text \<open>
  The counters and windows of \<^verbatim>\<open>this.metrics\<close> that the methods below touch, and
  \<^verbatim>\<open>this.recentErrors\<close> (each entry: the error and its context). A counter is a
  natural number: it starts at zero, goes up by one, and stays below \<open>2 ^ 53\<close>, where
  a double counts exactly. A load time is a positive finite double.
\<close>

record Metrics =
  apiCalls :: nat
  cacheHits :: nat
  cacheMisses :: nat
  errors :: nat
  loadTimes :: "double list"
  recentErrors :: "(js_error \<times> string) list"

definition new_PerformanceMonitor :: Metrics where
  "new_PerformanceMonitor =
     \<lparr> apiCalls = 0, cacheHits = 0, cacheMisses = 0, errors = 0, loadTimes = [],
       recentErrors = [] \<rparr>"

definition recordLoadTime :: "Metrics \<Rightarrow> double \<Rightarrow> Metrics" where
  "recordLoadTime m duration =
     (if 0 < duration
      then let pushed = loadTimes m @ [duration]
           in m\<lparr> loadTimes := (if 100 < length pushed then tl pushed else pushed) \<rparr>
      else m)"

definition recordAPICall :: "Metrics \<Rightarrow> double \<Rightarrow> Metrics" where
  "recordAPICall m duration =
     (let m1 = m\<lparr> apiCalls := apiCalls m + 1 \<rparr>
      in if 0 < duration then recordLoadTime m1 duration else m1)"

definition recordCacheHit :: "Metrics \<Rightarrow> Metrics" where
  "recordCacheHit m = m\<lparr> cacheHits := cacheHits m + 1 \<rparr>"

definition recordCacheMiss :: "Metrics \<Rightarrow> Metrics" where
  "recordCacheMiss m = m\<lparr> cacheMisses := cacheMisses m + 1 \<rparr>"

definition recordError :: "Metrics \<Rightarrow> js_error \<Rightarrow> string \<Rightarrow> Metrics" where
  "recordError m error context =
     (let pushed = recentErrors m @ [(error, context)]
      in m\<lparr> errors := errors m + 1,
            recentErrors := (if 10 < length pushed then tl pushed else pushed) \<rparr>)"

definition recordAPIResponseTime :: "Metrics \<Rightarrow> double \<Rightarrow> Metrics" where
  "recordAPIResponseTime m responseTime = recordLoadTime m responseTime"

text \<open>
  \<^verbatim>\<open>calculatePerformanceScore\<close>, statement by statement, in double arithmetic. The
  sum of the load times is the left fold of \<^verbatim>\<open>reduce\<close> from zero and may overflow
  to \<^verbatim>\<open>Infinity\<close>; the score itself stays finite. \<^verbatim>\<open>Math.round\<close> gives the
  nearest integer, a half going up, as \<^const>\<open>round\<close> does.
\<close>

definition sumLoadTimes :: "double list \<Rightarrow> double option" where
  "sumLoadTimes ts = foldl jsAddOrInfinity (Some 0) ts"

definition calculatePerformanceScore :: "Metrics \<Rightarrow> int" where
  "calculatePerformanceScore m =
     (let score0 = (100 :: double);
          errorRate = (if 0 < apiCalls m
                       then jsMul (jsDiv (of_nat (errors m)) (of_nat (apiCalls m))) 100 else 0);
          score1 = jsSub score0 (jsMul errorRate 10);
          avgLoadTime = (if 0 < length (loadTimes m)
                         then (case sumLoadTimes (loadTimes m) of
                                 None \<Rightarrow> None
                               | Some s \<Rightarrow> Some (jsDiv s (of_nat (length (loadTimes m)))))
                         else Some 0);
          score2 = (if exceeds avgLoadTime 1000 then jsSub score1 20 else score1);
          score3 = (if exceeds avgLoadTime 2000 then jsSub score2 30 else score2);
          totalCacheRequests = jsAdd (of_nat (cacheHits m)) (of_nat (cacheMisses m));
          cacheHitRate = (if 0 < totalCacheRequests
                          then jsMul (jsDiv (of_nat (cacheHits m)) totalCacheRequests) 100
                          else 0);
          score4 = (if 70 < cacheHitRate then jsAdd score3 10 else score3);
          score5 = (if 90 < cacheHitRate then jsAdd score4 20 else score4)
      in max 0 (min 100 (round score5)))"

text \<open>
  The three rates as \<^verbatim>\<open>getStats\<close> and \<^verbatim>\<open>calculatePerformanceScore\<close> compute
  them.
\<close>

definition errorRatePercent :: "Metrics \<Rightarrow> double" where
  "errorRatePercent m =
     (if 0 < apiCalls m
      then jsMul (jsDiv (of_nat (errors m)) (of_nat (apiCalls m))) 100 else 0)"

definition averageLatency :: "Metrics \<Rightarrow> double option" where
  "averageLatency m =
     (if 0 < length (loadTimes m)
      then (case sumLoadTimes (loadTimes m) of
              None \<Rightarrow> None
            | Some s \<Rightarrow> Some (jsDiv s (of_nat (length (loadTimes m)))))
      else Some 0)"

definition cacheHitRatePercent :: "Metrics \<Rightarrow> double" where
  "cacheHitRatePercent m =
     (if 0 < jsAdd (of_nat (cacheHits m)) (of_nat (cacheMisses m))
      then jsMul (jsDiv (of_nat (cacheHits m))
                    (jsAdd (of_nat (cacheHits m)) (of_nat (cacheMisses m)))) 100
      else 0)"

text \<open>
  The states of the monitor that the code can be in: counters below \<open>2 ^ 53\<close>, load
  times that are positive finite doubles.
\<close>

definition isDouble :: "rat \<Rightarrow> bool" where
  "isDouble x \<longleftrightarrow> toDouble x = x \<and> \<bar>x\<bar> < pow2 1024"

definition wellFormedMetrics :: "Metrics \<Rightarrow> bool" where
  "wellFormedMetrics m \<longleftrightarrow>
     apiCalls m < 2 ^ 53 \<and> errors m < 2 ^ 53 \<and> cacheHits m < 2 ^ 53 \<and> cacheMisses m < 2 ^ 53
     \<and> list_all (\<lambda>t. 0 < t \<and> isDouble t) (loadTimes m)"

text \<open>
  The score as the specification words it, in exact arithmetic on the three rates: 100,
  minus ten times the error rate, minus 20 above 1000 ms and 30 in all above 2000 ms,
  plus 10 above 70 percent and 20 in all above 90 percent, clamped to the interval from
  0 to 100.
\<close>

definition specified_score :: "Metrics \<Rightarrow> rat" where
  "specified_score m =
     max 0 (min 100
       (100 - 10 * errorRatePercent m
        - (if exceeds (averageLatency m) 2000 then 30
           else if exceeds (averageLatency m) 1000 then 20 else 0)
        + (if 90 < cacheHitRatePercent m then 20
           else if 70 < cacheHitRatePercent m then 10 else 0)))"

section \<open>Synthetic stock data\<close>

text \<open>
  The object that \<^verbatim>\<open>fetchStockData\<close> returns and caches. The last three properties
  are absent (\<open>None\<close>) on data that came from the remote source. Prices are kept as
  real numbers: what is stated of them below is the sign of a price and the prices of
  the sample states, which doubles hold exactly.
\<close>

record StockInfo =
  stockSymbol :: string
  price :: real
  change :: real
  changePercent :: real
  lastUpdated :: string
  isMockData :: "bool option"
  source :: "string option"
  errorReason :: "string option"

text \<open>
  \<^verbatim>\<open>basePrices[symbol]\<close> reads a property of an object literal: one of its ten own
  properties, or a property inherited from \<^verbatim>\<open>Object.prototype\<close> (a function or an
  object, truthy and not a number), or \<^verbatim>\<open>undefined\<close>.
\<close>

datatype property = OwnNumber real | Inherited | Missing

definition ObjectPrototypeNames :: "string list" where
  "ObjectPrototypeNames =
     [''constructor'', ''hasOwnProperty'', ''isPrototypeOf'', ''propertyIsEnumerable'',
      ''toLocaleString'', ''toString'', ''valueOf'', ''__proto__'',
      ''__defineGetter__'', ''__defineSetter__'', ''__lookupGetter__'', ''__lookupSetter__'']"

definition basePrices :: "string \<Rightarrow> property" where
  "basePrices symbol =
     (case map_of [(''AAPL'', 175), (''GOOGL'', 140), (''MSFT'', 350), (''AMZN'', 130),
                   (''TSLA'', 240), (''NVDA'', 450), (''META'', 300), (''NFLX'', 400),
                   (''AMD'', 110), (''CRM'', 200)] symbol of
        Some p \<Rightarrow> OwnNumber p
      | None \<Rightarrow> if symbol \<in> set ObjectPrototypeNames then Inherited else Missing)"

text \<open>
  \<^verbatim>\<open>parseFloat(x.toFixed(2))\<close>: \<^verbatim>\<open>toFixed\<close> rounds the magnitude to the nearest
  hundredth, a half upwards, and keeps the sign.
\<close>

definition toFixed2 :: "real \<Rightarrow> real" where
  "toFixed2 x =
     (if x < 0 then - (real_of_int (round (- x * 100)) / 100)
      else real_of_int (round (x * 100)) / 100)"

text \<open>
  \<^verbatim>\<open>generateMockStockData\<close>. The two results of \<^verbatim>\<open>Math.random()\<close> are the
  arguments \<open>random1\<close> (drawn only when the table has no price) and \<open>random2\<close>;
  \<open>isoNow\<close> is \<^verbatim>\<open>new Date().toISOString()\<close>. An inherited property is truthy, so
  it becomes \<^verbatim>\<open>basePrice\<close>; it has no method \<^verbatim>\<open>toFixed\<close>, and the call throws a
  \<^verbatim>\<open>TypeError\<close>.
\<close>

definition generateMockStockData ::
  "string \<Rightarrow> real \<Rightarrow> real \<Rightarrow> string \<Rightarrow> js_error + StockInfo" where
  "generateMockStockData symbol random1 random2 isoNow =
     (case basePrices symbol of
        Inherited \<Rightarrow> Inl (TypeError ''basePrice.toFixed is not a function'')
      | p \<Rightarrow>
          let basePrice = (case p of OwnNumber b \<Rightarrow> b | _ \<Rightarrow> random1 * 400 + 50);
              volatility = 5 / 100;
              change = (random2 - 1 / 2) * 2 * basePrice * volatility;
              changePercent = change / basePrice * 100
          in Inr \<lparr> stockSymbol = sanitizeInput symbol None,
                   price = toFixed2 basePrice,
                   change = toFixed2 change,
                   changePercent = toFixed2 changePercent,
                   lastUpdated = isoNow,
                   isMockData = Some True,
                   source = Some ''mock_generator'',
                   errorReason = None \<rparr>)"


section \<open>fetchStockData\<close>

text \<open>
  What \<^verbatim>\<open>fetchStockData\<close> reads of the configuration: \<^verbatim>\<open>AppState.isConfigLoaded\<close>,
  \<^verbatim>\<open>API_CONFIG.ALPHA_VANTAGE_KEY\<close> (\<open>None\<close> for \<^verbatim>\<open>undefined\<close>) and
  \<^verbatim>\<open>AppState.configLoader\<close> (\<open>None\<close> for \<^verbatim>\<open>null\<close>, else the result of its
  \<^verbatim>\<open>isDemoMode()\<close>).
\<close>

record Config =
  isConfigLoaded :: bool
  ALPHA_VANTAGE_KEY :: "string option"
  configLoader :: "bool option"

text \<open>
  The \<^verbatim>\<open>Global Quote\<close> object of a response, as the code reads it: the symbol, the
  results of \<^verbatim>\<open>parseFloat\<close> on the price and the change (\<open>None\<close> for \<^verbatim>\<open>NaN\<close>),
  and the change in percent, whose outer \<open>None\<close> says that the property is not a
  string (the call of \<^verbatim>\<open>replace\<close> on it then throws a \<^verbatim>\<open>TypeError\<close>).
\<close>

record Quote =
  quoteSymbol :: string
  quotePrice :: "real option"
  quoteChange :: "real option"
  quoteChangePercent :: "real option option"

text \<open>
  What the remote source does when it is called: \<^verbatim>\<open>fetch\<close> rejects (the timeout of
  \<^verbatim>\<open>AbortSignal.timeout\<close>, or a transport error); the response is not \<^verbatim>\<open>ok\<close>
  (with its status and status text as printed); \<^verbatim>\<open>response.json()\<close> rejects; the
  body is \<^verbatim>\<open>null\<close>; or the body is an object, whose \<^verbatim>\<open>Global Quote\<close> is absent or
  empty (\<open>None\<close>) or a quote.
\<close>

datatype RemoteOutcome =
    FetchRejected js_error
  | ResponseNotOk string string
  | JsonRejected js_error
  | JsonNull
  | JsonBody "Quote option"

text \<open>
  What one call reads from outside: the clock at the cache lookup and at the cache
  write, the two random numbers and the time stamp of the generator, the elapsed time
  \<^verbatim>\<open>performance.now() - startTime\<close>, and the outcome of the remote call if one is
  made.
\<close>

record Env =
  nowAtGet :: int
  nowAtSet :: int
  random1 :: real
  random2 :: real
  isoNow :: string
  fetchTime :: double
  remote :: RemoteOutcome

text \<open>
  The state the call works on: the cache, the monitor, and \<open>remoteCalls\<close>, which counts
  the requests sent with \<^verbatim>\<open>fetch\<close>.
\<close>

record App =
  cacheManager :: "StockInfo CacheManager"
  performanceMonitor :: Metrics
  remoteCalls :: nat

definition cacheKey :: "string \<Rightarrow> string" where
  "cacheKey symbol = ''stock_'' @ symbol"

definition mockFor :: "Env \<Rightarrow> string \<Rightarrow> js_error + StockInfo" where
  "mockFor env symbol = generateMockStockData symbol (random1 env) (random2 env) (isoNow env)"

definition cacheStock :: "Env \<Rightarrow> string \<Rightarrow> StockInfo \<Rightarrow> int \<Rightarrow> App \<Rightarrow> App" where
  "cacheStock env symbol info duration app =
     app\<lparr> cacheManager :=
            snd (CacheManager_set (cacheManager app) (cacheKey symbol) (Val info)
                   (Some duration) (nowAtSet env)) \<rparr>"

text \<open>
  \<^verbatim>\<open>parseFloat(...) || 0\<close>: \<^verbatim>\<open>NaN\<close> and zero both give zero.
\<close>

definition orZero :: "real option \<Rightarrow> real" where
  "orZero x = (case x of None \<Rightarrow> 0 | Some r \<Rightarrow> r)"

text \<open>
  The body of the \<^verbatim>\<open>try\<close> block. \<open>Inl\<close> is an error thrown inside the block, with
  the state as it is at the throw; \<open>Inr\<close> is the value returned.
\<close>

definition fetchStockData_try ::
  "Config \<Rightarrow> Env \<Rightarrow> string \<Rightarrow> bool \<Rightarrow> App \<Rightarrow> (js_error + StockInfo) \<times> App" where
  "fetchStockData_try cfg env symbol allowMockData app =
     (if \<not> validateStockSymbol symbol
      then (Inl (Error ''Invalid stock symbol provided''), app)
      else
        (case CacheManager_get (cacheManager app) (cacheKey symbol) (nowAtGet env) of
           (Val cachedData, cm) \<Rightarrow>
             (Inr cachedData,
              app\<lparr> cacheManager := cm,
                    performanceMonitor := recordCacheHit (performanceMonitor app) \<rparr>)
         | (_, cm) \<Rightarrow>
             let app1 = app\<lparr> cacheManager := cm,
                              performanceMonitor :=
                                recordAPICall (recordCacheMiss (performanceMonitor app)) 0 \<rparr>
             in
             if \<not> isConfigLoaded cfg
                \<or> (case ALPHA_VANTAGE_KEY cfg of None \<Rightarrow> True | Some k \<Rightarrow> k = [])
             then
               (if \<not> allowMockData
                then (Inl (Error
                        ''API configuration not available and mock data not allowed''), app1)
                else (case mockFor env symbol of
                        Inl e \<Rightarrow> (Inl e, app1)
                      | Inr mockData \<Rightarrow>
                          (Inr mockData, cacheStock env symbol mockData MOCK_DURATION app1)))
             else if configLoader cfg = Some True
             then
               (case mockFor env symbol of
                  Inl e \<Rightarrow> (Inl e, app1)
                | Inr mockData \<Rightarrow>
                    (Inr mockData, cacheStock env symbol mockData MOCK_DURATION app1))
             else
               let app2 = app1\<lparr> remoteCalls := remoteCalls app1 + 1 \<rparr>
               in
               (case remote env of
                  FetchRejected e \<Rightarrow> (Inl e, app2)
                | ResponseNotOk status statusText \<Rightarrow>
                    (Inl (Error (''API request failed: '' @ status @ '' '' @ statusText)), app2)
                | JsonRejected e \<Rightarrow> (Inl e, app2)
                | JsonNull \<Rightarrow>
                    (Inl (TypeError
                       ''Cannot read properties of null (reading 'Global Quote')''), app2)
                | JsonBody None \<Rightarrow>
                    (if \<not> allowMockData
                     then (Inl (Error ''Invalid stock symbol or API limit reached''), app2)
                     else (case mockFor env symbol of
                             Inl e \<Rightarrow> (Inl e, app2)
                           | Inr generated \<Rightarrow>
                               let mockData = generated\<lparr> isMockData := Some True,
                                                         source := Some ''api_fallback'' \<rparr>
                               in (Inr mockData,
                                   cacheStock env symbol mockData MOCK_DURATION app2)))
                | JsonBody (Some quote) \<Rightarrow>
                    (case quoteChangePercent quote of
                       None \<Rightarrow>
                         (Inl (TypeError
                            ''Cannot read properties of undefined (reading 'replace')''), app2)
                     | Some percent \<Rightarrow>
                         let stockInfo =
                               \<lparr> stockSymbol = sanitizeInput (quoteSymbol quote) None,
                                 price = orZero (quotePrice quote),
                                 change = orZero (quoteChange quote),
                                 changePercent = orZero percent,
                                 lastUpdated = isoNow env,
                                 isMockData = None, source = None, errorReason = None \<rparr>
                         in
                         if price stockInfo \<le> 0
                         then (Inl (Error ''Invalid price data received''), app2)
                         else
                           let app3 = cacheStock env symbol stockInfo STOCK_DURATION app2
                           in (Inr stockInfo,
                               app3\<lparr> performanceMonitor :=
                                       recordAPIResponseTime (performanceMonitor app3)
                                         (fetchTime env) \<rparr>)))))"

text \<open>
  The \<^verbatim>\<open>catch\<close> block: the error is recorded; it is thrown again when mock data is
  not allowed; otherwise mock data is generated (which may throw in its turn), tagged
  with the message of the error and cached for \<^const>\<open>ERROR_DURATION\<close>.
\<close>

definition fetchStockData_catch ::
  "Env \<Rightarrow> string \<Rightarrow> bool \<Rightarrow> js_error \<Rightarrow> App \<Rightarrow> (js_error + StockInfo) \<times> App" where
  "fetchStockData_catch env symbol allowMockData error app =
     (let app1 = app\<lparr> performanceMonitor :=
                        recordError (performanceMonitor app) error ''stock_fetch'' \<rparr>
      in
      if \<not> allowMockData then (Inl error, app1)
      else (case mockFor env symbol of
              Inl e \<Rightarrow> (Inl e, app1)
            | Inr generated \<Rightarrow>
                let mockData = generated\<lparr> isMockData := Some True,
                                          errorReason := Some (message error) \<rparr>
                in (Inr mockData, cacheStock env symbol mockData ERROR_DURATION app1)))"

text \<open>
  The call: \<open>Inl\<close> is the error the returned promise rejects with, \<open>Inr\<close> the value it
  resolves to.
\<close>

definition fetchStockData ::
  "Config \<Rightarrow> Env \<Rightarrow> string \<Rightarrow> bool \<Rightarrow> App \<Rightarrow> (js_error + StockInfo) \<times> App" where
  "fetchStockData cfg env symbol allowMockData app =
     (case fetchStockData_try cfg env symbol allowMockData app of
        (Inl error, app') \<Rightarrow> fetchStockData_catch env symbol allowMockData error app'
      | (Inr stockInfo, app') \<Rightarrow> (Inr stockInfo, app'))"


section \<open>Sequences of cache operations\<close>

text \<open>
  A run on one cache. The constructor starts a timer that calls \<^verbatim>\<open>cleanup\<close> every
  \<^verbatim>\<open>CLEANUP_INTERVAL\<close> milliseconds, so between two calls of the methods the timer
  may fire; whether it does is up to the event loop, which runs the callback no earlier
  than it is due and never inside a synchronous stretch of code. A run lists, in the
  order in which they happen, the insertions, the reads (\<^verbatim>\<open>get\<close> and
  \<^verbatim>\<open>has\<close>) and the firings of that timer; every one of them carries the reading
  of the clock at which it happens.
\<close>

datatype 'a CacheOp =
    SetOp string "'a jsval" int int
  | GetOp string int
  | HasOp string int
  | CleanupOp int

fun applyOp :: "'a CacheManager \<Rightarrow> 'a CacheOp \<Rightarrow> 'a CacheManager" where
  "applyOp c (SetOp key val duration now) = snd (CacheManager_set c key val (Some duration) now)"
| "applyOp c (GetOp key now) = snd (CacheManager_get c key now)"
| "applyOp c (HasOp key now) = snd (CacheManager_has c key now)"
| "applyOp c (CleanupOp now) = CacheManager_cleanup c now"

definition runOps :: "'a CacheManager \<Rightarrow> 'a CacheOp list \<Rightarrow> 'a CacheManager" where
  "runOps c ops = foldl applyOp c ops"

text \<open>
  Of a run: the keys it inserts, in order; the values it inserts; the keys it writes,
  each with the expiration time it gets; the keys it reads, each with the time of the
  read; the times at which the cleanup timer fires.
\<close>

fun insertedKeys :: "'a CacheOp list \<Rightarrow> string list" where
  "insertedKeys [] = []"
| "insertedKeys (SetOp key val duration now # ops) = key # insertedKeys ops"
| "insertedKeys (GetOp key now # ops) = insertedKeys ops"
| "insertedKeys (HasOp key now # ops) = insertedKeys ops"
| "insertedKeys (CleanupOp now # ops) = insertedKeys ops"

fun insertedValues :: "'a CacheOp list \<Rightarrow> 'a jsval list" where
  "insertedValues [] = []"
| "insertedValues (SetOp key val duration now # ops) = val # insertedValues ops"
| "insertedValues (GetOp key now # ops) = insertedValues ops"
| "insertedValues (HasOp key now # ops) = insertedValues ops"
| "insertedValues (CleanupOp now # ops) = insertedValues ops"

fun writtenEntries :: "'a CacheOp list \<Rightarrow> (string \<times> int) list" where
  "writtenEntries [] = []"
| "writtenEntries (SetOp key val duration now # ops) = (key, now + duration) # writtenEntries ops"
| "writtenEntries (GetOp key now # ops) = writtenEntries ops"
| "writtenEntries (HasOp key now # ops) = writtenEntries ops"
| "writtenEntries (CleanupOp now # ops) = writtenEntries ops"

fun reads :: "'a CacheOp list \<Rightarrow> (string \<times> int) list" where
  "reads [] = []"
| "reads (SetOp key val duration now # ops) = reads ops"
| "reads (GetOp key now # ops) = (key, now) # reads ops"
| "reads (HasOp key now # ops) = (key, now) # reads ops"
| "reads (CleanupOp now # ops) = reads ops"

fun cleanups :: "'a CacheOp list \<Rightarrow> int list" where
  "cleanups [] = []"
| "cleanups (SetOp key val duration now # ops) = cleanups ops"
| "cleanups (GetOp key now # ops) = cleanups ops"
| "cleanups (HasOp key now # ops) = cleanups ops"
| "cleanups (CleanupOp now # ops) = now # cleanups ops"

section \<open>Notions used to state the properties of fetchStockData\<close>

text \<open>
  The lookup at the head of \<^verbatim>\<open>fetchStockData\<close> finds no usable entry: the value
  that \<^verbatim>\<open>cacheManager.get\<close> returns is falsy.
\<close>

definition missed :: "Env \<Rightarrow> string \<Rightarrow> App \<Rightarrow> bool" where
  "missed env symbol app =
     (case fst (CacheManager_get (cacheManager app) (cacheKey symbol) (nowAtGet env)) of
        Val cachedData \<Rightarrow> False
      | _ \<Rightarrow> True)"

text \<open>
  The state once that lookup, \<^verbatim>\<open>recordCacheMiss()\<close> and \<^verbatim>\<open>recordAPICall()\<close>
  are done.
\<close>

definition afterMiss :: "Env \<Rightarrow> string \<Rightarrow> App \<Rightarrow> App" where
  "afterMiss env symbol app =
     app\<lparr> cacheManager :=
            snd (CacheManager_get (cacheManager app) (cacheKey symbol) (nowAtGet env)),
          performanceMonitor := recordAPICall (recordCacheMiss (performanceMonitor app)) 0 \<rparr>"

text \<open>The configuration is loaded and holds a key for the remote source.\<close>

definition configured :: "Config \<Rightarrow> bool" where
  "configured cfg \<longleftrightarrow>
     isConfigLoaded cfg \<and> (case ALPHA_VANTAGE_KEY cfg of None \<Rightarrow> False | Some k \<Rightarrow> k \<noteq> [])"

text \<open>
  The error that an outcome of the remote call makes the \<^verbatim>\<open>try\<close> block throw, if
  any: a rejected \<^verbatim>\<open>fetch\<close>, a response that is not \<^verbatim>\<open>ok\<close>, a body that does
  not parse or is \<^verbatim>\<open>null\<close>, a quote without its percentage, a price that is not
  positive. A body without a quote throws nothing by itself, and neither does a quote
  with a positive price.
\<close>

definition remoteFailure :: "RemoteOutcome \<Rightarrow> js_error option" where
  "remoteFailure outcome =
     (case outcome of
        FetchRejected e \<Rightarrow> Some e
      | ResponseNotOk status statusText \<Rightarrow>
          Some (Error (''API request failed: '' @ status @ '' '' @ statusText))
      | JsonRejected e \<Rightarrow> Some e
      | JsonNull \<Rightarrow> Some (TypeError ''Cannot read properties of null (reading 'Global Quote')'')
      | JsonBody None \<Rightarrow> None
      | JsonBody (Some quote) \<Rightarrow>
          (case quoteChangePercent quote of
             None \<Rightarrow> Some (TypeError ''Cannot read properties of undefined (reading 'replace')'')
           | Some percent \<Rightarrow>
               if orZero (quotePrice quote) \<le> 0 then Some (Error ''Invalid price data received'')
               else None))"

text \<open>The cache holds \<open>info\<close> for the symbol, with the given expiration time.\<close>

definition cachedUnder :: "App \<Rightarrow> string \<Rightarrow> StockInfo \<Rightarrow> int \<Rightarrow> bool" where
  "cachedUnder app symbol info expiry \<longleftrightarrow>
     map_of (cache (cacheManager app)) (cacheKey symbol) = Some (Val info)
     \<and> map_of (timestamps (cacheManager app)) (cacheKey symbol) = Some expiry"

section \<open>Sample states\<close>

text \<open>A cache of size two that is full; \<open>A\<close> is its oldest key.\<close>

definition sampleCache :: "nat CacheManager" where
  "sampleCache =
     \<lparr> cache = [(''A'', Val 1), (''B'', Val 2)],
       timestamps = [(''A'', 100), (''B'', 200)],
       hitCount = 0, missCount = 0, maxSize = 2, defaultDuration = 300000 \<rparr>"

text \<open>
  Three insertions of entries that live for a quarter of an hour. After the second, the
  first key is read, the cleanup timer fires for the first time, ten minutes after the
  start, and the second key is looked up.
\<close>

definition sampleRun :: "nat CacheOp list" where
  "sampleRun = [SetOp ''A'' (Val 1) 900000 0, SetOp ''B'' (Val 2) 900000 1, GetOp ''A'' 2,
                CleanupOp 600000, HasOp ''B'' 600001, SetOp ''C'' (Val 3) 900000 600002]"

text \<open>
  The options of a cache of size two, and three more runs on it: in the first, the
  second entry lives for one millisecond and is read after that; in the second, the
  second key is empty; in the third, nothing is read, the second entry lives for one
  millisecond and the cleanup timer fires before the third insertion.
\<close>

definition sizeTwo :: CacheOptions where
  "sizeTwo = \<lparr> opt_maxSize = Some 2, opt_defaultDuration = None \<rparr>"

definition expiringRun :: "nat CacheOp list" where
  "expiringRun = [SetOp ''A'' (Val 1) 1000 0, SetOp ''B'' (Val 2) 1 1, GetOp ''B'' 10,
                  SetOp ''C'' (Val 3) 1000 11]"

definition emptyKeyRun :: "nat CacheOp list" where
  "emptyKeyRun = [SetOp ''A'' (Val 1) 1000 0, SetOp [] (Val 2) 1000 1,
                  SetOp ''C'' (Val 3) 1000 2]"

definition cleanedRun :: "nat CacheOp list" where
  "cleanedRun = [SetOp ''A'' (Val 1) 900000 0, SetOp ''B'' (Val 2) 1 1, CleanupOp 600000,
                 SetOp ''C'' (Val 3) 900000 600001]"

text \<open>
  Three monitors: one slow load; one error in 25 calls with every lookup a hit; one
  error in 300 calls.
\<close>

definition slowMetrics :: Metrics where
  "slowMetrics = \<lparr> apiCalls = 0, cacheHits = 0, cacheMisses = 0, errors = 0,
                    loadTimes = [3000], recentErrors = [] \<rparr>"

definition hitMetrics :: Metrics where
  "hitMetrics = \<lparr> apiCalls = 25, cacheHits = 1, cacheMisses = 0, errors = 1,
                   loadTimes = [], recentErrors = [] \<rparr>"

definition thirdMetrics :: Metrics where
  "thirdMetrics = \<lparr> apiCalls = 300, cacheHits = 0, cacheMisses = 0, errors = 1,
                     loadTimes = [], recentErrors = [] \<rparr>"

text \<open>
  Two monitors on which the rounding of the double operations decides the score: 97
  errors in 2000 calls, where the exact score would be 51.5; two load times, 1024.4 and
  975.6 as doubles, whose exact sum is above 2000 and whose double sum is 2000.
\<close>

definition manyCallsMetrics :: Metrics where
  "manyCallsMetrics = \<lparr> apiCalls = 2000, cacheHits = 0, cacheMisses = 0, errors = 97,
                        loadTimes = [], recentErrors = [] \<rparr>"

definition twoLoadsMetrics :: Metrics where
  "twoLoadsMetrics = \<lparr> apiCalls = 0, cacheHits = 0, cacheMisses = 0, errors = 0,
                        loadTimes = [2252679422987469 / 2199023255552,
                                     8581468352466125 / 8796093022208],
                        recentErrors = [] \<rparr>"

text \<open>
  An environment whose remote source answers with an empty body; a configuration with
  a key and no demo mode; no configuration; the application at its start.
\<close>

definition sampleEnv :: Env where
  "sampleEnv = \<lparr> nowAtGet = 1000, nowAtSet = 1200, random1 = 0, random2 = 1 / 2,
                  isoNow = ''2025-11-25T00:00:00.000Z'', fetchTime = 200,
                  remote = JsonBody None \<rparr>"

definition liveConfig :: Config where
  "liveConfig = \<lparr> isConfigLoaded = True, ALPHA_VANTAGE_KEY = Some ''KEY'',
                    configLoader = Some False \<rparr>"

definition noConfig :: Config where
  "noConfig = \<lparr> isConfigLoaded = False, ALPHA_VANTAGE_KEY = None, configLoader = None \<rparr>"

definition freshApp :: App where
  "freshApp = \<lparr> cacheManager = new_CacheManager
                     \<lparr> opt_maxSize = Some MAX_SIZE, opt_defaultDuration = Some STOCK_DURATION \<rparr>,
                  performanceMonitor = new_PerformanceMonitor, remoteCalls = 0 \<rparr>"

text \<open>What the generator makes of \<open>AAPL\<close> in the sample environment.\<close>

definition aaplMock :: StockInfo where
  "aaplMock = \<lparr> stockSymbol = ''AAPL'', price = 175, change = 0, changePercent = 0,
                lastUpdated = ''2025-11-25T00:00:00.000Z'', isMockData = Some True,
                source = Some ''mock_generator'', errorReason = None \<rparr>"

section \<open>The cache: basic facts\<close>

declare enforceMaxSize.simps [simp del]

declare bitLength.simps [simp del] pow2.simps [simp del]


lemma delete_cache [simp]:
  "cache (snd (CacheManager_delete c k)) = AList.delete k (cache c)"
  by (simp add: CacheManager_delete_def)

lemma delete_timestamps:
  "timestamps (snd (CacheManager_delete c k)) =
     (if k \<in> fst ` set (cache c) then AList.delete k (timestamps c) else timestamps c)"
  by (simp add: CacheManager_delete_def)

lemma delete_counters [simp]:
  "hitCount (snd (CacheManager_delete c k)) = hitCount c"
  "missCount (snd (CacheManager_delete c k)) = missCount c"
  "maxSize (snd (CacheManager_delete c k)) = maxSize c"
  "defaultDuration (snd (CacheManager_delete c k)) = defaultDuration c"
  by (simp_all add: CacheManager_delete_def)

lemma keys_delete: "fst ` set (AList.delete k al) = fst ` set al - {k}"
  by (auto simp: AList.delete_eq)

subsection \<open>The two maps keep the same keys\<close>

lemma same_keys_delete: "same_keys c \<Longrightarrow> same_keys (snd (CacheManager_delete c k))"
  by (auto simp: same_keys_def CacheManager_delete_def keys_delete)

lemma same_keys_enforceMaxSize: "same_keys c \<Longrightarrow> same_keys (enforceMaxSize c)"
proof (induction c rule: enforceMaxSize.induct)
  case (1 c)
  show ?case
  proof (cases "maxSize c \<le> int (length (cache c))")
    case False
    then show ?thesis using "1.prems" by (simp add: enforceMaxSize.simps [of c])
  next
    case True
    show ?thesis
    proof (cases "cache c")
      case Nil
      then show ?thesis using "1.prems" by (simp add: enforceMaxSize.simps [of c])
    next
      case (Cons p ps)
      obtain k v where p: "p = (k, v)" by (cases p)
      show ?thesis
      proof (cases "k = []")
        case True
        then show ?thesis using "1.prems" Cons p by (simp add: enforceMaxSize.simps [of c])
      next
        case False
        have "same_keys (enforceMaxSize (snd (CacheManager_delete c k)))"
          using "1.IH" [OF True Cons p [symmetric] False] "1.prems" same_keys_delete by blast
        then show ?thesis using True Cons p False by (simp add: enforceMaxSize.simps [of c])
      qed
    qed
  qed
qed

lemma same_keys_set: "same_keys c \<Longrightarrow> same_keys (snd (CacheManager_set c key val d now))"
  using same_keys_enforceMaxSize [of c]
  by (auto simp: CacheManager_set_def Let_def same_keys_def dom_update)

lemma same_keys_get: "same_keys c \<Longrightarrow> same_keys (snd (CacheManager_get c key now))"
  using same_keys_delete [of c key]
  by (auto simp: CacheManager_get_def Let_def same_keys_def split: option.splits)

lemma same_keys_clear: "same_keys (CacheManager_clear c)"
  by (simp add: CacheManager_clear_def same_keys_def)

lemma same_keys_fold:
  "same_keys c \<Longrightarrow>
   same_keys (fold (\<lambda>(key, expirationTime) c'.
             if expirationTime \<le> now then snd (CacheManager_delete c' key) else c') es c)"
  by (induction es arbitrary: c) (auto simp: same_keys_delete)

lemma same_keys_cleanup: "same_keys c \<Longrightarrow> same_keys (CacheManager_cleanup c now)"
  by (simp add: CacheManager_cleanup_def same_keys_fold)

lemma same_keys_new: "same_keys (new_CacheManager options)"
  by (simp add: new_CacheManager_def same_keys_def)

text \<open>
  Claim C9. Every operation of the cache (\<^verbatim>\<open>set\<close>, \<^verbatim>\<open>get\<close>, \<^verbatim>\<open>delete\<close>,
  \<^verbatim>\<open>clear\<close>, \<^verbatim>\<open>cleanup\<close>, \<^verbatim>\<open>enforceMaxSize\<close>) keeps the invariant that the
  value map and the expiry map hold the same set of keys: no key has a value without an
  expiry, nor an expiry without a value.
\<close>

theorem cache_operations_keep_same_keys:
  assumes "same_keys c"
  shows "same_keys (snd (CacheManager_set c key val duration now))
       \<and> same_keys (snd (CacheManager_get c key now))
       \<and> same_keys (snd (CacheManager_delete c key))
       \<and> same_keys (CacheManager_clear c)
       \<and> same_keys (CacheManager_cleanup c now)
       \<and> same_keys (enforceMaxSize c)"
  using assms
  by (simp add: same_keys_set same_keys_get same_keys_delete same_keys_clear
        same_keys_cleanup same_keys_enforceMaxSize)

text \<open>
  The invariant at work on a fresh cache of size two: it holds at construction, and after
  each operation applied to the fresh cache.
\<close>

theorem cache_operations_keep_same_keys_witness:
  "same_keys (new_CacheManager \<lparr> opt_maxSize = Some 2, opt_defaultDuration = None \<rparr>
               :: nat CacheManager)
   \<and> same_keys (snd (CacheManager_set
         (new_CacheManager \<lparr> opt_maxSize = Some 2, opt_defaultDuration = None \<rparr>
            :: nat CacheManager) ''A'' (Val 1) (Some 5) 10))
   \<and> same_keys (snd (CacheManager_get
         (new_CacheManager \<lparr> opt_maxSize = Some 2, opt_defaultDuration = None \<rparr>
            :: nat CacheManager) ''A'' 10))
   \<and> same_keys (CacheManager_cleanup
         (new_CacheManager \<lparr> opt_maxSize = Some 2, opt_defaultDuration = None \<rparr>
            :: nat CacheManager) 10)"
  using same_keys_new
    cache_operations_keep_same_keys [OF same_keys_new,
      of "\<lparr> opt_maxSize = Some 2, opt_defaultDuration = None \<rparr>" "''A''" "Val (1::nat)"
         "Some 5" 10]
  by blast

subsection \<open>The cache stays well formed\<close>

lemma well_formed_delete: "well_formed c \<Longrightarrow> well_formed (snd (CacheManager_delete c k))"
  by (auto simp: well_formed_def CacheManager_delete_def distinct_delete keys_delete)

lemma well_formed_enforceMaxSize: "well_formed c \<Longrightarrow> well_formed (enforceMaxSize c)"
proof (induction c rule: enforceMaxSize.induct)
  case (1 c)
  show ?case
  proof (cases "maxSize c \<le> int (length (cache c))")
    case False
    then show ?thesis using "1.prems" by (simp add: enforceMaxSize.simps [of c])
  next
    case True
    show ?thesis
    proof (cases "cache c")
      case Nil
      then show ?thesis using "1.prems" by (simp add: enforceMaxSize.simps [of c])
    next
      case (Cons p ps)
      obtain k v where p: "p = (k, v)" by (cases p)
      show ?thesis
      proof (cases "k = []")
        case True
        then show ?thesis using "1.prems" Cons p by (simp add: enforceMaxSize.simps [of c])
      next
        case False
        have "well_formed (enforceMaxSize (snd (CacheManager_delete c k)))"
          using "1.IH" [OF True Cons p [symmetric] False] "1.prems" well_formed_delete by blast
        then show ?thesis using True Cons p False by (simp add: enforceMaxSize.simps [of c])
      qed
    qed
  qed
qed

lemma well_formed_fold:
  "well_formed c \<Longrightarrow>
   well_formed (fold (\<lambda>(key, expirationTime) c'.
             if expirationTime \<le> now then snd (CacheManager_delete c' key) else c') es c)"
  by (induction es arbitrary: c) (auto simp: well_formed_delete)

lemma cache_stays_well_formed:
  assumes "well_formed c"
  shows "well_formed (snd (CacheManager_set c key val duration now))"
    and "well_formed (snd (CacheManager_get c key now))"
    and "well_formed (snd (CacheManager_delete c key))"
    and "well_formed (CacheManager_clear c)"
    and "well_formed (CacheManager_cleanup c now)"
    and "well_formed (enforceMaxSize c)"
proof -
  show "well_formed (snd (CacheManager_set c key val duration now))"
    using assms well_formed_enforceMaxSize [OF assms]
    by (auto simp: CacheManager_set_def Let_def well_formed_def distinct_update dom_update)
  show "well_formed (snd (CacheManager_get c key now))"
    using assms well_formed_delete [OF assms, of key]
    by (auto simp: CacheManager_get_def Let_def well_formed_def split: option.splits)
  show "well_formed (snd (CacheManager_delete c key))"
    using assms by (rule well_formed_delete)
  show "well_formed (CacheManager_clear c)"
    by (simp add: CacheManager_clear_def well_formed_def)
  show "well_formed (CacheManager_cleanup c now)"
    using assms by (simp add: CacheManager_cleanup_def well_formed_fold)
  show "well_formed (enforceMaxSize c)"
    using assms by (rule well_formed_enforceMaxSize)
qed

lemma well_formed_new: "well_formed (new_CacheManager options)"
  by (simp add: new_CacheManager_def well_formed_def)

subsection \<open>Hits and misses\<close>

lemma enforce_counters [simp]:
  "hitCount (enforceMaxSize c) = hitCount c"
  "missCount (enforceMaxSize c) = missCount c"
  "maxSize (enforceMaxSize c) = maxSize c"
  "defaultDuration (enforceMaxSize c) = defaultDuration c"
proof (induction c rule: enforceMaxSize.induct)
  case (1 c)
  { case 1 show ?case using "1.IH"(1)
      by (subst enforceMaxSize.simps) (auto split: list.splits) }
  { case 2 show ?case using "1.IH"(2)
      by (subst enforceMaxSize.simps) (auto split: list.splits) }
  { case 3 show ?case using "1.IH"(3)
      by (subst enforceMaxSize.simps) (auto split: list.splits) }
  { case 4 show ?case using "1.IH"(4)
      by (subst enforceMaxSize.simps) (auto split: list.splits) }
qed

lemma get_counts_once:
  "(hitCount (snd (CacheManager_get c key now)) = hitCount c + 1
      \<and> missCount (snd (CacheManager_get c key now)) = missCount c)
   \<or> (hitCount (snd (CacheManager_get c key now)) = hitCount c
      \<and> missCount (snd (CacheManager_get c key now)) = missCount c + 1)"
  by (auto simp: CacheManager_get_def Let_def split: option.splits)

lemma get_missing:
  "key \<notin> fst ` set (cache c) \<Longrightarrow>
   CacheManager_get c key now = (Null, c\<lparr> missCount := missCount c + 1 \<rparr>)"
  by (simp add: CacheManager_get_def)

lemma map_of_Some_key: "map_of al k = Some v \<Longrightarrow> k \<in> fst ` set al"
  by (metis domI dom_map_of_conv_image_fst)

lemma get_expired:
  assumes "[] \<notin> fst ` set (cache c)" "map_of (cache c) key = Some v"
    "map_of (timestamps c) key = Some e" "e \<le> now"
  shows "CacheManager_get c key now =
           (Null, c\<lparr> cache := AList.delete key (cache c),
                     timestamps := AList.delete key (timestamps c),
                     missCount := missCount c + 1 \<rparr>)"
proof -
  have k: "key \<in> fst ` set (cache c)" using assms(2) by (rule map_of_Some_key)
  with assms(1) have "key \<noteq> []" by metis
  with k assms(3,4) show ?thesis
    by (simp add: CacheManager_get_def Let_def CacheManager_delete_def)
qed

lemma get_live:
  assumes "0 \<le> now" "[] \<notin> fst ` set (cache c)" "map_of (cache c) key = Some v"
    "map_of (timestamps c) key = Some e" "now < e"
  shows "CacheManager_get c key now = (v, c\<lparr> hitCount := hitCount c + 1 \<rparr>)"
proof -
  have k: "key \<in> fst ` set (cache c)" using assms(3) by (rule map_of_Some_key)
  with assms(2) have "key \<noteq> []" by metis
  moreover have "e \<noteq> 0" using assms(1,5) by simp
  ultimately show ?thesis using k assms(3,4,5)
    by (simp add: CacheManager_get_def Let_def)
qed

text \<open>
  Claim C7. On a clock that is not negative and a cache without the empty key (which
  \<^verbatim>\<open>set\<close> never stores): \<^verbatim>\<open>get\<close> returns \<^verbatim>\<open>null\<close> for a missing key and
  counts a miss; for a key that is present and expired it deletes the entry from both
  maps, returns \<^verbatim>\<open>null\<close> and counts a miss; for a key that is present and live it
  counts a hit and returns the stored value; and every call raises exactly one of the two
  counters, by exactly one.
\<close>

theorem get_hit_or_miss:
  assumes "0 \<le> now" and "[] \<notin> fst ` set (cache c)"
  shows "(key \<notin> fst ` set (cache c) \<longrightarrow>
            CacheManager_get c key now = (Null, c\<lparr> missCount := missCount c + 1 \<rparr>))
       \<and> (\<forall>v e. map_of (cache c) key = Some v \<and> map_of (timestamps c) key = Some e \<and> e \<le> now \<longrightarrow>
            CacheManager_get c key now =
              (Null, c\<lparr> cache := AList.delete key (cache c),
                        timestamps := AList.delete key (timestamps c),
                        missCount := missCount c + 1 \<rparr>)
            \<and> key \<notin> fst ` set (AList.delete key (cache c))
            \<and> key \<notin> fst ` set (AList.delete key (timestamps c)))
       \<and> (\<forall>v e. map_of (cache c) key = Some v \<and> map_of (timestamps c) key = Some e \<and> now < e \<longrightarrow>
            CacheManager_get c key now = (v, c\<lparr> hitCount := hitCount c + 1 \<rparr>))
       \<and> ((hitCount (snd (CacheManager_get c key now)) = hitCount c + 1
            \<and> missCount (snd (CacheManager_get c key now)) = missCount c)
          \<or> (hitCount (snd (CacheManager_get c key now)) = hitCount c
            \<and> missCount (snd (CacheManager_get c key now)) = missCount c + 1))"
  using get_missing [of key c now] get_expired [OF assms(2), of key _ _ now]
    get_live [OF assms, of key] get_counts_once [of c key now]
  by (simp add: delete_notin_dom)

text \<open>
  The three cases on the sample cache, whose key \<open>A\<close> expires at time 100: a read of the
  absent key \<open>C\<close>, a read of \<open>A\<close> at time 100, and a read of \<open>A\<close> at time 50.
\<close>

theorem get_hit_or_miss_witness:
  "CacheManager_get sampleCache ''C'' 50 = (Null, sampleCache\<lparr> missCount := 1 \<rparr>)
   \<and> CacheManager_get sampleCache ''A'' 100 =
       (Null, sampleCache\<lparr> cache := [(''B'', Val 2)], timestamps := [(''B'', 200)],
                            missCount := 1 \<rparr>)
   \<and> CacheManager_get sampleCache ''A'' 50 = (Val 1, sampleCache\<lparr> hitCount := 1 \<rparr>)"
proof -
  have nonneg: "(0::int) \<le> 50" "(0::int) \<le> 100" by simp_all
  have noempty: "[] \<notin> fst ` set (cache sampleCache)" by (simp add: sampleCache_def)
  have "CacheManager_get sampleCache ''C'' 50 = (Null, sampleCache\<lparr> missCount := 1 \<rparr>)"
    using get_hit_or_miss [OF nonneg(1) noempty, of "''C''"] by (simp add: sampleCache_def)
  moreover have "CacheManager_get sampleCache ''A'' 100 =
       (Null, sampleCache\<lparr> cache := [(''B'', Val 2)], timestamps := [(''B'', 200)],
                            missCount := 1 \<rparr>)"
    using get_hit_or_miss [OF nonneg(2) noempty, of "''A''"] by (simp add: sampleCache_def)
  moreover have "CacheManager_get sampleCache ''A'' 50 = (Val 1, sampleCache\<lparr> hitCount := 1 \<rparr>)"
    using get_hit_or_miss [OF nonneg(1) noempty, of "''A''"] by (simp add: sampleCache_def)
  ultimately show ?thesis by blast
qed

text \<open>
  Claim C8. In every state and for every key, \<^verbatim>\<open>has\<close> answers true exactly when
  \<^verbatim>\<open>get\<close> in that state returns something other than \<^verbatim>\<open>null\<close>; it leaves the
  cache in the state that this one \<^verbatim>\<open>get\<close> leaves it in, so the hit and miss counters
  move once, by one in total.
\<close>

theorem has_routes_through_get:
  "fst (CacheManager_has c key now) = (fst (CacheManager_get c key now) \<noteq> Null)
   \<and> snd (CacheManager_has c key now) = snd (CacheManager_get c key now)
   \<and> hitCount (snd (CacheManager_has c key now)) + missCount (snd (CacheManager_has c key now))
       = hitCount c + missCount c + 1"
  using get_counts_once [of c key now]
  by (auto simp: CacheManager_has_def split: prod.splits)

text \<open>
  On the sample cache, \<^verbatim>\<open>has\<close> of the live key \<open>A\<close> is true and counts one hit.
\<close>

theorem has_routes_through_get_witness:
  "CacheManager_has sampleCache ''A'' 50 = (True, sampleCache\<lparr> hitCount := 1 \<rparr>)"
proof -
  have g: "CacheManager_get sampleCache ''A'' 50 = (Val 1, sampleCache\<lparr> hitCount := 1 \<rparr>)"
    by (simp add: CacheManager_get_def sampleCache_def)
  show ?thesis
    using has_routes_through_get [of sampleCache "''A''" 50]
    by (simp add: g prod_eq_iff)
qed

text \<open>
  Claim C10. For a key that is not empty, a value that is defined and a duration that
  is zero or negative, \<^verbatim>\<open>set\<close> returns true and stores the entry, with the
  expiration time \<open>now + d\<close>; a \<^verbatim>\<open>get\<close> of the key at that time or later returns
  \<^verbatim>\<open>null\<close>, counts a miss and removes the entry from both maps.
\<close>

theorem nonpositive_duration_born_expired:
  assumes "key \<noteq> []" and "val \<noteq> Undefined" and "d \<le> 0" and "now \<le> later"
  shows "fst (CacheManager_set c key val (Some d) now)
       \<and> (let c1 = snd (CacheManager_set c key val (Some d) now);
              r = fst (CacheManager_get c1 key later);
              c2 = snd (CacheManager_get c1 key later)
          in map_of (cache c1) key = Some val
           \<and> map_of (timestamps c1) key = Some (now + d)
           \<and> r = Null
           \<and> missCount c2 = missCount c1 + 1
           \<and> hitCount c2 = hitCount c1
           \<and> key \<notin> fst ` set (cache c2)
           \<and> key \<notin> fst ` set (timestamps c2))"
proof -
  define c1 where "c1 = snd (CacheManager_set c key val (Some d) now)"
  have ok: "fst (CacheManager_set c key val (Some d) now)"
    using assms(1,2) by (simp add: CacheManager_set_def Let_def)
  have cv: "map_of (cache c1) key = Some val"
    and ce: "map_of (timestamps c1) key = Some (now + d)"
    using assms(1,2) by (simp_all add: c1_def CacheManager_set_def Let_def update_conv')
  have kin: "key \<in> fst ` set (cache c1)" using cv by (rule map_of_Some_key)
  have "\<not> later < now + d" using assms(3,4) by simp
  then have g: "CacheManager_get c1 key later =
      (Null, c1\<lparr> cache := AList.delete key (cache c1),
                 timestamps := AList.delete key (timestamps c1),
                 missCount := missCount c1 + 1 \<rparr>)"
    using assms(1) kin ce by (simp add: CacheManager_get_def Let_def CacheManager_delete_def)
  show ?thesis
    unfolding Let_def c1_def [symmetric]
    using ok cv ce by (simp add: g delete_notin_dom)
qed

text \<open>
  On the sample cache: \<open>C\<close> stored at time 50 for \<open>-1\<close> milliseconds, and read at
  time 50.
\<close>

theorem nonpositive_duration_born_expired_witness:
  "fst (CacheManager_set sampleCache ''C'' (Val 3) (Some (- 1)) 50)
   \<and> fst (CacheManager_get
            (snd (CacheManager_set sampleCache ''C'' (Val 3) (Some (- 1)) 50)) ''C'' 50) = Null
   \<and> ''C'' \<notin> fst ` set (cache (snd (CacheManager_get
            (snd (CacheManager_set sampleCache ''C'' (Val 3) (Some (- 1)) 50)) ''C'' 50)))"
proof -
  have h: "''C'' \<noteq> []" "Val (3::nat) \<noteq> Undefined" "(- 1 :: int) \<le> 0" "(50::int) \<le> 50"
    by simp_all
  show ?thesis
    using nonpositive_duration_born_expired [OF h, of sampleCache]
    by (simp add: Let_def)
qed

subsection \<open>Overwriting a key\<close>

lemma enforce_below: "int (length (cache c)) < maxSize c \<Longrightarrow> enforceMaxSize c = c"
  by (simp add: enforceMaxSize.simps [of c])

lemma enforce_at_bound:
  assumes "cache c = (k, v) # rest" and "k \<noteq> []" and "k \<notin> fst ` set rest"
    and "int (length (cache c)) = maxSize c"
  shows "enforceMaxSize c = c\<lparr> cache := rest, timestamps := AList.delete k (timestamps c) \<rparr>"
proof -
  have d: "snd (CacheManager_delete c k) =
             c\<lparr> cache := rest, timestamps := AList.delete k (timestamps c) \<rparr>"
    using assms(1,3) by (simp add: CacheManager_delete_def)
  have "enforceMaxSize c = enforceMaxSize (snd (CacheManager_delete c k))"
    using assms(1,2,4) by (simp add: enforceMaxSize.simps [of c])
  also have "\<dots> = snd (CacheManager_delete c k)"
    using assms(1,4) by (intro enforce_below) (simp add: d)
  finally show ?thesis by (simp add: d)
qed

lemma set_result:
  "key \<noteq> [] \<Longrightarrow> val \<noteq> Undefined \<Longrightarrow>
   CacheManager_set c key val (Some d) now =
     (True, (enforceMaxSize c)\<lparr> cache := AList.update key val (cache (enforceMaxSize c)),
              timestamps := AList.update key (now + d) (timestamps (enforceMaxSize c)) \<rparr>)"
  by (simp add: CacheManager_set_def Let_def)

lemma map_fst_update_present:
  "k \<in> fst ` set al \<Longrightarrow> map fst (AList.update k v al) = map fst al"
  by (simp add: update_keys)

lemma map_fst_update_absent:
  "k \<notin> fst ` set al \<Longrightarrow> map fst (AList.update k v al) = map fst al @ [k]"
  by (simp add: update_keys)

lemma overwrite_maps:
  assumes "distinct (map fst (cache c))" and "[] \<notin> fst ` set (cache c)"
    and "key \<in> fst ` set (cache c)" and "val \<noteq> Undefined"
  shows "(int (length (cache c)) < maxSize c \<longrightarrow>
            fst (CacheManager_set c key val (Some d) now)
          \<and> map fst (cache (snd (CacheManager_set c key val (Some d) now))) = map fst (cache c)
          \<and> map_of (cache (snd (CacheManager_set c key val (Some d) now)))
              = (map_of (cache c))(key \<mapsto> val)
          \<and> map_of (timestamps (snd (CacheManager_set c key val (Some d) now)))
              = (map_of (timestamps c))(key \<mapsto> now + d))
       \<and> (int (length (cache c)) = maxSize c \<longrightarrow>
            fst (CacheManager_set c key val (Some d) now)
          \<and> map fst (cache (snd (CacheManager_set c key val (Some d) now)))
              = (if key = hd (map fst (cache c)) then tl (map fst (cache c)) @ [key]
                 else tl (map fst (cache c)))
          \<and> map_of (cache (snd (CacheManager_set c key val (Some d) now)))
              = ((map_of (cache c))(hd (map fst (cache c)) := None))(key \<mapsto> val)
          \<and> map_of (timestamps (snd (CacheManager_set c key val (Some d) now)))
              = ((map_of (timestamps c))(hd (map fst (cache c)) := None))(key \<mapsto> now + d))"
proof -
  have ne: "key \<noteq> []" using assms(2,3) by metis
  note sr = set_result [OF ne assms(4), of c d now]
  show ?thesis
  proof (intro conjI impI)
    assume b: "int (length (cache c)) < maxSize c"
    show "fst (CacheManager_set c key val (Some d) now)" by (simp add: sr)
    show "map fst (cache (snd (CacheManager_set c key val (Some d) now))) = map fst (cache c)"
      using assms(3) by (simp add: sr enforce_below [OF b] map_fst_update_present)
    show "map_of (cache (snd (CacheManager_set c key val (Some d) now)))
              = (map_of (cache c))(key \<mapsto> val)"
      by (simp add: sr enforce_below [OF b] update_conv')
    show "map_of (timestamps (snd (CacheManager_set c key val (Some d) now)))
              = (map_of (timestamps c))(key \<mapsto> now + d)"
      by (simp add: sr enforce_below [OF b] update_conv')
  next
    assume b: "int (length (cache c)) = maxSize c"
    from assms(3) obtain k v rest where cc: "cache c = (k, v) # rest"
      by (cases "cache c") auto
    have k: "k \<noteq> []" "k \<notin> fst ` set rest"
      using assms(1,2) cc by (auto simp: image_iff)
    note e = enforce_at_bound [OF cc k b]
    show "fst (CacheManager_set c key val (Some d) now)" by (simp add: sr)
    show "map fst (cache (snd (CacheManager_set c key val (Some d) now)))
              = (if key = hd (map fst (cache c)) then tl (map fst (cache c)) @ [key]
                 else tl (map fst (cache c)))"
    proof -
      have cs: "cache (snd (CacheManager_set c key val (Some d) now)) = AList.update key val rest"
        by (simp add: sr e)
      show ?thesis
      proof (cases "key = k")
        case True
        then have "key \<notin> fst ` set rest" using k(2) by simp
        then show ?thesis unfolding cs using True by (simp add: cc map_fst_update_absent)
      next
        case False
        then have "key \<in> fst ` set rest" using assms(3) cc by auto
        then show ?thesis unfolding cs using False by (simp add: cc map_fst_update_present)
      qed
    qed
    show "map_of (cache (snd (CacheManager_set c key val (Some d) now)))
              = ((map_of (cache c))(hd (map fst (cache c)) := None))(key \<mapsto> val)"
    proof -
      have "map_of rest k = None" using k(2) by (simp add: map_of_eq_None_iff)
      then have "map_of rest = (map_of (cache c))(k := None)"
        by (auto simp: cc fun_eq_iff)
      then show ?thesis by (simp add: sr e cc update_conv')
    qed
    show "map_of (timestamps (snd (CacheManager_set c key val (Some d) now)))
              = ((map_of (timestamps c))(hd (map fst (cache c)) := None))(key \<mapsto> now + d)"
      by (simp add: sr e cc update_conv' delete_conv')
  qed
qed


text \<open>
  Claim C3, as the code has it. The cache holds distinct keys, none of them empty, and
  among them \<open>key\<close>; the value is defined. Below the size bound, \<^verbatim>\<open>set\<close> replaces
  the value and the expiry of \<open>key\<close> and nothing else: the keys, their order and
  their number stay, and every other key keeps its value and its expiry. At the size
  bound, \<^verbatim>\<open>set\<close> first evicts the oldest entry, as it does for a new key: when the
  oldest key is another key, that entry is lost, the size drops by one and \<open>key\<close> is
  overwritten in place; when the oldest key is \<open>key\<close> itself, it is entered again as
  the newest entry and the size stays; every key other than these two keeps its value
  and its expiry.
\<close>

theorem overwrite_existing_key:
  assumes "distinct (map fst (cache c))" and "[] \<notin> fst ` set (cache c)"
    and "key \<in> fst ` set (cache c)" and "val \<noteq> Undefined"
  shows "(int (length (cache c)) < maxSize c \<longrightarrow>
            fst (CacheManager_set c key val (Some d) now)
          \<and> map fst (cache (snd (CacheManager_set c key val (Some d) now))) = map fst (cache c)
          \<and> length (cache (snd (CacheManager_set c key val (Some d) now))) = length (cache c)
          \<and> map_of (cache (snd (CacheManager_set c key val (Some d) now)))
              = (map_of (cache c))(key \<mapsto> val)
          \<and> map_of (timestamps (snd (CacheManager_set c key val (Some d) now)))
              = (map_of (timestamps c))(key \<mapsto> now + d))
       \<and> (int (length (cache c)) = maxSize c \<longrightarrow>
            fst (CacheManager_set c key val (Some d) now)
          \<and> map fst (cache (snd (CacheManager_set c key val (Some d) now)))
              = (if key = hd (map fst (cache c)) then tl (map fst (cache c)) @ [key]
                 else tl (map fst (cache c)))
          \<and> length (cache (snd (CacheManager_set c key val (Some d) now)))
              = (if key = hd (map fst (cache c)) then length (cache c) else length (cache c) - 1)
          \<and> map_of (cache (snd (CacheManager_set c key val (Some d) now)))
              = ((map_of (cache c))(hd (map fst (cache c)) := None))(key \<mapsto> val)
          \<and> map_of (timestamps (snd (CacheManager_set c key val (Some d) now)))
              = ((map_of (timestamps c))(hd (map fst (cache c)) := None))(key \<mapsto> now + d))"
proof -
  let ?c = "snd (CacheManager_set c key val (Some d) now)"
  note m = overwrite_maps [OF assms, of d now]
  have ne: "cache c \<noteq> []" using assms(3) by auto
  have below: "length (cache ?c) = length (cache c)"
    if "map fst (cache ?c) = map fst (cache c)"
    using that by (metis length_map)
  have bound: "length (cache ?c)
      = (if key = hd (map fst (cache c)) then length (cache c) else length (cache c) - 1)"
    if k: "map fst (cache ?c)
      = (if key = hd (map fst (cache c)) then tl (map fst (cache c)) @ [key]
         else tl (map fst (cache c)))"
  proof -
    have "length (cache ?c) = length (map fst (cache ?c))" by simp
    also have "\<dots> = (if key = hd (map fst (cache c)) then length (cache c)
                       else length (cache c) - 1)"
      unfolding k using ne by simp
    finally show ?thesis .
  qed
  show ?thesis using m below bound by blast
qed

text \<open>
  On the full sample cache: its oldest key \<open>A\<close> overwritten, its newer key \<open>B\<close>
  overwritten, and \<open>A\<close> overwritten when the bound is five.
\<close>

theorem overwrite_existing_key_witness:
  "map fst (cache (snd (CacheManager_set sampleCache ''A'' (Val 9) (Some 5) 50))) = [''B'', ''A'']
   \<and> map fst (cache (snd (CacheManager_set sampleCache ''B'' (Val 9) (Some 5) 50))) = [''B'']
   \<and> map fst (cache (snd (CacheManager_set (sampleCache\<lparr> maxSize := 5 \<rparr>) ''A'' (Val 9)
         (Some 5) 50))) = [''A'', ''B'']
   \<and> map_of (cache (snd (CacheManager_set (sampleCache\<lparr> maxSize := 5 \<rparr>) ''A'' (Val 9)
         (Some 5) 50))) ''A'' = Some (Val 9)"
proof -
  have h: "distinct (map fst (cache sampleCache))" "[] \<notin> fst ` set (cache sampleCache)"
    "''A'' \<in> fst ` set (cache sampleCache)" "''B'' \<in> fst ` set (cache sampleCache)"
    "Val (9::nat) \<noteq> Undefined"
    by (simp_all add: sampleCache_def)
  have h5: "distinct (map fst (cache (sampleCache\<lparr> maxSize := 5 \<rparr>)))"
    "[] \<notin> fst ` set (cache (sampleCache\<lparr> maxSize := 5 \<rparr>))"
    "''A'' \<in> fst ` set (cache (sampleCache\<lparr> maxSize := 5 \<rparr>))"
    by (simp_all add: sampleCache_def)
  have "map fst (cache (snd (CacheManager_set sampleCache ''A'' (Val 9) (Some 5) 50)))
          = [''B'', ''A'']"
    using overwrite_existing_key [OF h(1,2,3,5), of 5 50] by (simp add: sampleCache_def)
  moreover have "map fst (cache (snd (CacheManager_set sampleCache ''B'' (Val 9) (Some 5) 50)))
          = [''B'']"
    using overwrite_existing_key [OF h(1,2,4,5), of 5 50] by (simp add: sampleCache_def)
  moreover have "map fst (cache (snd (CacheManager_set (sampleCache\<lparr> maxSize := 5 \<rparr>) ''A''
          (Val 9) (Some 5) 50))) = [''A'', ''B'']
     \<and> map_of (cache (snd (CacheManager_set (sampleCache\<lparr> maxSize := 5 \<rparr>) ''A'' (Val 9)
          (Some 5) 50))) ''A'' = Some (Val 9)"
    using overwrite_existing_key [OF h5 h(5), of 5 50] by (simp add: sampleCache_def)
  ultimately show ?thesis by blast
qed

text \<open>
  The claim as it was worded fails on the full sample cache: overwriting \<open>B\<close> leaves one
  entry where there were two, and \<open>A\<close> has lost its value.
\<close>

theorem overwrite_at_bound_counterexample:
  "''B'' \<in> fst ` set (cache sampleCache)
   \<and> int (length (cache sampleCache)) = maxSize sampleCache
   \<and> cache (snd (CacheManager_set sampleCache ''B'' (Val 9) (Some 5) 50)) = [(''B'', Val 9)]
   \<and> length (cache (snd (CacheManager_set sampleCache ''B'' (Val 9) (Some 5) 50)))
       \<noteq> length (cache sampleCache)
   \<and> map_of (cache (snd (CacheManager_set sampleCache ''B'' (Val 9) (Some 5) 50))) ''A''
       \<noteq> map_of (cache sampleCache) ''A''"
  by (simp add: sampleCache_def CacheManager_set_def enforceMaxSize.simps CacheManager_delete_def)

subsection \<open>Eviction in insertion order\<close>

lemma set_update_subset: "set (AList.update k v al) \<subseteq> insert (k, v) (set al)"
  by (induction al) auto

lemma set_delete_subset: "set (AList.delete k al) \<subseteq> set al"
  by (auto simp: AList.delete_eq)

lemma get_keeps_live_cache:
  assumes "map fst (cache c) = map fst (timestamps c)"
    and "\<forall>(k, e) \<in> set (timestamps c). k = key \<longrightarrow> e \<noteq> 0 \<and> now < e"
  shows "cache (snd (CacheManager_get c key now)) = cache c
       \<and> timestamps (snd (CacheManager_get c key now)) = timestamps c
       \<and> maxSize (snd (CacheManager_get c key now)) = maxSize c"
proof (cases "key = [] \<or> key \<notin> fst ` set (cache c)")
  case True
  then show ?thesis by (auto simp: CacheManager_get_def)
next
  case False
  then have "key \<in> set (map fst (timestamps c))" using assms(1) by (metis image_set)
  then obtain e where e: "map_of (timestamps c) key = Some e"
    by (metis image_set map_of_eq_None_iff not_Some_eq)
  then have "(key, e) \<in> set (timestamps c)" by (rule map_of_SomeD)
  with assms(2) have "e \<noteq> 0 \<and> now < e" by blast
  with False e show ?thesis by (simp add: CacheManager_get_def Let_def)
qed

lemma set_new_key_step:
  assumes ks: "map fst (cache c) = K" and ts: "map fst (timestamps c) = K"
    and "distinct K" and "[] \<notin> set K" and "int (length K) \<le> maxSize c"
    and "key \<notin> set K" and "key \<noteq> []" and "val \<noteq> Undefined" and "1 \<le> maxSize c"
  shows "map fst (cache (snd (CacheManager_set c key val (Some d) now)))
           = drop (length K + 1 - nat (maxSize c)) (K @ [key])
       \<and> map fst (timestamps (snd (CacheManager_set c key val (Some d) now)))
           = drop (length K + 1 - nat (maxSize c)) (K @ [key])
       \<and> maxSize (snd (CacheManager_set c key val (Some d) now)) = maxSize c
       \<and> set (timestamps (snd (CacheManager_set c key val (Some d) now)))
           \<subseteq> insert (key, now + d) (set (timestamps c))"
proof (cases "int (length K) < maxSize c")
  case True
  then have b: "int (length (cache c)) < maxSize c" using ks by (metis length_map)
  have "length K + 1 - nat (maxSize c) = 0" using True by simp
  moreover have "key \<notin> fst ` set (cache c)" "key \<notin> fst ` set (timestamps c)"
    using assms(6) ks ts by (metis image_set)+
  ultimately show ?thesis
    using ks ts by (simp add: set_result [OF assms(7,8)] enforce_below [OF b]
        map_fst_update_absent set_update_subset)
next
  case False
  then have b: "int (length (cache c)) = maxSize c"
    using assms(5) ks by (metis length_map order.order_iff_strict)
  then have len: "length K = nat (maxSize c)" using ks by (metis length_map nat_int)
  then have "K \<noteq> []" using assms(9) by auto
  then obtain k K' where K: "K = k # K'" by (cases K) auto
  from ks K obtain v rest where cc: "cache c = (k, v) # rest" and rest: "map fst rest = K'"
    by (cases "cache c") auto
  have k: "k \<noteq> []" "k \<notin> set K'" using assms(3,4) K by auto
  have k': "k \<notin> fst ` set rest" using k(2) rest by (metis image_set)
  note e = enforce_at_bound [OF cc k(1) k' b]
  have d1: "Suc (Suc (length K')) - nat (maxSize c) = Suc 0" using len K by simp
  have tk: "map fst (AList.delete k (timestamps c)) = K'"
    using ts K k(2) by (simp add: delete_keys)
  have a1: "key \<notin> fst ` set rest" using assms(6) K rest by (metis image_set list.set_intros(2))
  have a2: "key \<notin> fst ` set (AList.delete k (timestamps c))"
    using assms(6) K tk by (metis image_set list.set_intros(2))
  have sub: "set (AList.update key (now + d) (AList.delete k (timestamps c)))
               \<subseteq> insert (key, now + d) (set (timestamps c))"
    using set_update_subset [of key "now + d" "AList.delete k (timestamps c)"]
      set_delete_subset [of k "timestamps c"] by blast
  show ?thesis
    using a1 a2 sub
    by (simp add: set_result [OF assms(7,8)] e d1 K rest tk map_fst_update_absent)
qed

lemma drop_drop_append:
  "j \<le> length xs \<Longrightarrow> drop a (drop j xs @ ys) = drop (a + j) (xs @ ys)"
  by (simp add: add.commute)

lemma cleanup_keeps_live_cache:
  assumes "\<forall>(k, e) \<in> set (timestamps c). now < e"
  shows "CacheManager_cleanup c now = c"
proof -
  have "fold (\<lambda>(key, expirationTime) c'.
               if expirationTime \<le> now then snd (CacheManager_delete c' key) else c') ts c = c"
    if "\<forall>(k, e) \<in> set ts. now < e" for ts
    using that by (induction ts) auto
  then show ?thesis using assms by (simp add: CacheManager_cleanup_def)
qed

lemma has_state: "snd (CacheManager_has c key now) = snd (CacheManager_get c key now)"
  by (simp add: CacheManager_has_def split: prod.splits)

lemma run_split:
  "insertedKeys (op # ops) = insertedKeys [op] @ insertedKeys ops"
  "insertedValues (op # ops) = insertedValues [op] @ insertedValues ops"
  "writtenEntries (op # ops) = writtenEntries [op] @ writtenEntries ops"
  "reads (op # ops) = reads [op] @ reads ops"
  "cleanups (op # ops) = cleanups [op] @ cleanups ops"
  by (cases op; simp)+

lemma quiet_step:
  assumes "map fst (cache c) = map fst (timestamps c)"
    and "\<forall>(k, t) \<in> set (reads [op]). \<forall>(k', e) \<in> set (timestamps c).
           k' = k \<longrightarrow> e \<noteq> 0 \<and> t < e"
    and "\<forall>t \<in> set (cleanups [op]). \<forall>(k', e) \<in> set (timestamps c). t < e"
    and "\<forall>key val d now. op \<noteq> SetOp key val d now"
  shows "cache (applyOp c op) = cache c \<and> timestamps (applyOp c op) = timestamps c
       \<and> maxSize (applyOp c op) = maxSize c"
proof (cases op)
  case (SetOp key val d now)
  then show ?thesis using assms(4) by simp
next
  case (GetOp key now)
  have "\<forall>(k, e) \<in> set (timestamps c). k = key \<longrightarrow> e \<noteq> 0 \<and> now < e"
    using assms(2) unfolding GetOp by auto
  from get_keeps_live_cache [OF assms(1) this] show ?thesis unfolding GetOp by simp
next
  case (HasOp key now)
  have "\<forall>(k, e) \<in> set (timestamps c). k = key \<longrightarrow> e \<noteq> 0 \<and> now < e"
    using assms(2) unfolding HasOp by auto
  from get_keeps_live_cache [OF assms(1) this] show ?thesis unfolding HasOp by (simp add: has_state)
next
  case (CleanupOp now)
  have "\<forall>(k, e) \<in> set (timestamps c). now < e"
    using assms(3) unfolding CleanupOp by auto
  then show ?thesis unfolding CleanupOp by (simp add: cleanup_keeps_live_cache)
qed

lemma quiet_lists:
  assumes "\<forall>key val d now. op \<noteq> SetOp key val d now"
  shows "insertedKeys [op] = []" "insertedValues [op] = []" "writtenEntries [op] = []"
  using assms by (cases op; simp)+

lemma fifo_run:
  assumes "map fst (cache c) = K" and "map fst (timestamps c) = K"
    and "1 \<le> maxSize c" and "int (length K) \<le> maxSize c"
    and "distinct (K @ insertedKeys ops)" and "[] \<notin> set (K @ insertedKeys ops)"
    and "Undefined \<notin> set (insertedValues ops)"
    and "\<forall>(k, t) \<in> set (reads ops).
           \<forall>(k', e) \<in> set (timestamps c) \<union> set (writtenEntries ops).
             k' = k \<longrightarrow> e \<noteq> 0 \<and> t < e"
    and "\<forall>t \<in> set (cleanups ops).
           \<forall>(k', e) \<in> set (timestamps c) \<union> set (writtenEntries ops). t < e"
  shows "map fst (cache (runOps c ops))
           = drop (length (K @ insertedKeys ops) - nat (maxSize c)) (K @ insertedKeys ops)
       \<and> map fst (timestamps (runOps c ops))
           = drop (length (K @ insertedKeys ops) - nat (maxSize c)) (K @ insertedKeys ops)"
  using assms
proof (induction ops arbitrary: c K)
  case Nil
  then show ?case by (simp add: runOps_def)
next
  case (Cons op ops)
  have ro: "runOps c (op # ops) = runOps (applyOp c op) ops" by (simp add: runOps_def)
  show ?case
  proof (cases "\<forall>key val d now. op \<noteq> SetOp key val d now")
    case True
    note ql = quiet_lists [OF True]
    have ik: "insertedKeys (op # ops) = insertedKeys ops"
      and iv: "insertedValues (op # ops) = insertedValues ops"
      and we: "writtenEntries (op # ops) = writtenEntries ops"
      unfolding run_split [of op ops] ql by simp_all
    have live: "\<forall>(k, t) \<in> set (reads [op]). \<forall>(k', e) \<in> set (timestamps c).
           k' = k \<longrightarrow> e \<noteq> 0 \<and> t < e"
      using Cons.prems(8) unfolding run_split(4) [of op ops] by fastforce
    have clean: "\<forall>t \<in> set (cleanups [op]). \<forall>(k', e) \<in> set (timestamps c). t < e"
      using Cons.prems(9) unfolding run_split(5) [of op ops] by fastforce
    have eq: "map fst (cache c) = map fst (timestamps c)" using Cons.prems(1,2) by simp
    let ?c = "applyOp c op"
    have g1: "cache ?c = cache c" and g2: "timestamps ?c = timestamps c"
      and g3: "maxSize ?c = maxSize c"
      using quiet_step [OF eq live clean True] by simp_all
    have "map fst (cache (runOps ?c ops))
           = drop (length (K @ insertedKeys ops) - nat (maxSize ?c)) (K @ insertedKeys ops)
       \<and> map fst (timestamps (runOps ?c ops))
           = drop (length (K @ insertedKeys ops) - nat (maxSize ?c)) (K @ insertedKeys ops)"
    proof (rule Cons.IH)
      show "map fst (cache ?c) = K" "map fst (timestamps ?c) = K"
        using Cons.prems(1,2) unfolding g1 g2 .
      show "1 \<le> maxSize ?c" "int (length K) \<le> maxSize ?c"
        using Cons.prems(3,4) unfolding g3 .
      show "distinct (K @ insertedKeys ops)" "[] \<notin> set (K @ insertedKeys ops)"
        "Undefined \<notin> set (insertedValues ops)"
        using Cons.prems(5,6,7) unfolding ik iv .
      show "\<forall>(k, t) \<in> set (reads ops).
           \<forall>(k', e) \<in> set (timestamps ?c) \<union> set (writtenEntries ops).
             k' = k \<longrightarrow> e \<noteq> 0 \<and> t < e"
        using Cons.prems(8) unfolding g2 we run_split(4) [of op ops] by simp
      show "\<forall>t \<in> set (cleanups ops).
           \<forall>(k', e) \<in> set (timestamps ?c) \<union> set (writtenEntries ops). t < e"
        using Cons.prems(9) unfolding g2 we run_split(5) [of op ops] by simp
    qed
    then show ?thesis unfolding ro ik g3 .
  next
    case False
    then obtain key val d now where SetOp: "op = SetOp key val d now" by blast
    let ?c = "snd (CacheManager_set c key val (Some d) now)"
    let ?j = "length K + 1 - nat (maxSize c)"
    let ?K = "drop ?j (K @ [key])"
    have ik: "insertedKeys (op # ops) = key # insertedKeys ops"
      and iv: "insertedValues (op # ops) = val # insertedValues ops"
      and we: "writtenEntries (op # ops) = (key, now + d) # writtenEntries ops"
      and rt: "reads (op # ops) = reads ops"
      and ct: "cleanups (op # ops) = cleanups ops"
      using SetOp by simp_all
    have kk: "key \<notin> set K" "key \<noteq> []" "val \<noteq> Undefined" "distinct K" "[] \<notin> set K"
      using Cons.prems(5,6,7) unfolding ik iv by auto
    note st = set_new_key_step [OF Cons.prems(1,2) kk(4,5) Cons.prems(4) kk(1,2,3) Cons.prems(3),
        of d now]
    have st1: "map fst (cache ?c) = ?K" and st2: "map fst (timestamps ?c) = ?K"
      and st3: "maxSize ?c = maxSize c"
      and st4: "set (timestamps ?c) \<subseteq> insert (key, now + d) (set (timestamps c))"
      using st by blast+
    have j: "?j \<le> 1" using Cons.prems(4) by linarith
    have lenK: "int (length ?K) \<le> maxSize c" using Cons.prems(3,4) by simp
    have dist: "distinct (?K @ insertedKeys ops)"
    proof -
      have d0: "distinct ((K @ [key]) @ insertedKeys ops)" using Cons.prems(5) unfolding ik by simp
      have "set ?K \<subseteq> set (K @ [key])" by (rule set_drop_subset)
      moreover have "distinct ?K" using d0 by (simp del: drop_append)
      ultimately show ?thesis using d0 unfolding distinct_append by blast
    qed
    have nonempty: "[] \<notin> set (?K @ insertedKeys ops)"
    proof -
      have "set ?K \<subseteq> set (K @ [key])" by (rule set_drop_subset)
      moreover have "[] \<notin> set (K @ [key]) \<union> set (insertedKeys ops)"
        using Cons.prems(6) unfolding ik by simp
      ultimately show ?thesis unfolding set_append by blast
    qed
    have live: "\<forall>(k, t) \<in> set (reads ops).
           \<forall>(k', e) \<in> set (timestamps ?c) \<union> set (writtenEntries ops).
             k' = k \<longrightarrow> e \<noteq> 0 \<and> t < e"
    proof (intro ballI, clarify)
      fix k t k' e assume t: "(k, t) \<in> set (reads ops)"
        and e: "(k, e) \<in> set (timestamps ?c) \<union> set (writtenEntries ops)"
      from e st4 have "(k, e) \<in> set (timestamps c) \<union> set (writtenEntries (op # ops))"
        unfolding we by auto
      with t Cons.prems(8) show "e \<noteq> 0 \<and> t < e" unfolding rt by blast
    qed
    have clean: "\<forall>t \<in> set (cleanups ops).
           \<forall>(k', e) \<in> set (timestamps ?c) \<union> set (writtenEntries ops). t < e"
    proof (intro ballI, clarify)
      fix t k' e assume t: "t \<in> set (cleanups ops)"
        and e: "(k', e) \<in> set (timestamps ?c) \<union> set (writtenEntries ops)"
      from e st4 have "(k', e) \<in> set (timestamps c) \<union> set (writtenEntries (op # ops))"
        unfolding we by auto
      with t Cons.prems(9) show "t < e" unfolding ct by blast
    qed
    have ih: "map fst (cache (runOps ?c ops))
           = drop (length (?K @ insertedKeys ops) - nat (maxSize ?c)) (?K @ insertedKeys ops)
       \<and> map fst (timestamps (runOps ?c ops))
           = drop (length (?K @ insertedKeys ops) - nat (maxSize ?c)) (?K @ insertedKeys ops)"
    proof (rule Cons.IH)
      show "map fst (cache ?c) = ?K" "map fst (timestamps ?c) = ?K" by (rule st1, rule st2)
      show "1 \<le> maxSize ?c" using Cons.prems(3) unfolding st3 .
      show "int (length ?K) \<le> maxSize ?c" using lenK unfolding st3 .
      show "distinct (?K @ insertedKeys ops)" by (rule dist)
      show "[] \<notin> set (?K @ insertedKeys ops)" by (rule nonempty)
      show "Undefined \<notin> set (insertedValues ops)" using Cons.prems(7) unfolding iv by simp
      show "\<forall>(k, t) \<in> set (reads ops).
           \<forall>(k', e) \<in> set (timestamps ?c) \<union> set (writtenEntries ops).
             k' = k \<longrightarrow> e \<noteq> 0 \<and> t < e"
        by (rule live)
      show "\<forall>t \<in> set (cleanups ops).
           \<forall>(k', e) \<in> set (timestamps ?c) \<union> set (writtenEntries ops). t < e"
        by (rule clean)
    qed
    have lK: "length ?K = length K + 1 - ?j" by simp
    have idx: "length (?K @ insertedKeys ops) - nat (maxSize c) + ?j
                 = length (K @ key # insertedKeys ops) - nat (maxSize c)"
      using Cons.prems(3,4) unfolding length_append lK by (simp del: drop_append length_drop)
    have dd: "drop (length (?K @ insertedKeys ops) - nat (maxSize c)) (?K @ insertedKeys ops)
            = drop (length (K @ key # insertedKeys ops) - nat (maxSize c)) (K @ key # insertedKeys ops)"
    proof -
      have "?j \<le> length (K @ [key])" using j by simp
      then have "drop (length (?K @ insertedKeys ops) - nat (maxSize c)) (?K @ insertedKeys ops)
            = drop (length (?K @ insertedKeys ops) - nat (maxSize c) + ?j)
                ((K @ [key]) @ insertedKeys ops)"
        by (rule drop_drop_append)
      then show ?thesis unfolding idx by simp
    qed
    have ro': "runOps c (op # ops) = runOps ?c ops" using SetOp by (simp add: runOps_def)
    show ?thesis unfolding ro' ik using ih unfolding st3 dd .
  qed
qed

text \<open>
  Claim C5, as the code has it. A fresh cache whose size bound is at least one runs a
  sequence of insertions and reads, during which the cleanup timer that the constructor
  started may fire. The insertions are of one key more than the bound, the keys
  distinct and none of them empty, each with a defined value; the reads are of any
  keys. No read of an inserted key happens at or after the expiration time that the run
  gives that key (the clock is not negative), and the cleanup timer does not fire at or
  after the expiration time of an inserted key. Then the cache ends with as many
  entries as its bound: the inserted keys but the first, in the order of their
  insertion. The first key inserted is the one that is gone, whatever was read in
  between.
\<close>

theorem fifo_eviction:
  assumes "1 \<le> maxSize (new_CacheManager options :: 'a CacheManager)"
    and "distinct (insertedKeys ops)" and "[] \<notin> set (insertedKeys ops)"
    and "Undefined \<notin> set (insertedValues (ops :: 'a CacheOp list))"
    and "int (length (insertedKeys ops)) = maxSize (new_CacheManager options :: 'a CacheManager) + 1"
    and "\<forall>(k, t) \<in> set (reads ops). \<forall>(k', e) \<in> set (writtenEntries ops).
           k' = k \<longrightarrow> 0 \<le> t \<and> t < e"
    and "\<forall>t \<in> set (cleanups ops). \<forall>(k', e) \<in> set (writtenEntries ops). t < e"
  shows "map fst (cache (runOps (new_CacheManager options) ops)) = tl (insertedKeys ops)
       \<and> map fst (timestamps (runOps (new_CacheManager options) ops)) = tl (insertedKeys ops)
       \<and> int (length (cache (runOps (new_CacheManager options) ops)))
           = maxSize (new_CacheManager options :: 'a CacheManager)
       \<and> hd (insertedKeys ops) \<notin> fst ` set (cache (runOps (new_CacheManager options) ops))"
proof -
  let ?c0 = "new_CacheManager options :: 'a CacheManager"
  let ?m = "maxSize ?c0"
  have c0: "cache ?c0 = []" "timestamps ?c0 = []"
    by (simp_all add: new_CacheManager_def)
  have live: "\<forall>(k, t) \<in> set (reads ops).
           \<forall>(k', e) \<in> set (timestamps ?c0) \<union> set (writtenEntries ops).
             k' = k \<longrightarrow> e \<noteq> 0 \<and> t < e"
    using assms(6) unfolding c0 by fastforce
  have clean: "\<forall>t \<in> set (cleanups ops).
           \<forall>(k', e) \<in> set (timestamps ?c0) \<union> set (writtenEntries ops). t < e"
    using assms(7) unfolding c0 by simp
  have run: "map fst (cache (runOps ?c0 ops))
           = drop (length ([] @ insertedKeys ops) - nat (maxSize ?c0)) ([] @ insertedKeys ops)
       \<and> map fst (timestamps (runOps ?c0 ops))
           = drop (length ([] @ insertedKeys ops) - nat (maxSize ?c0)) ([] @ insertedKeys ops)"
  proof (rule fifo_run)
    show "map fst (cache ?c0) = []" "map fst (timestamps ?c0) = []" by (simp_all add: c0)
    show "1 \<le> maxSize ?c0" by (rule assms(1))
    show "int (length ([]::string list)) \<le> maxSize ?c0" using assms(1) by simp
    show "distinct ([] @ insertedKeys ops)" "[] \<notin> set ([] @ insertedKeys ops)"
      using assms(2,3) by simp_all
    show "Undefined \<notin> set (insertedValues ops)" by (rule assms(4))
    show "\<forall>(k, t) \<in> set (reads ops).
           \<forall>(k', e) \<in> set (timestamps ?c0) \<union> set (writtenEntries ops).
             k' = k \<longrightarrow> e \<noteq> 0 \<and> t < e"
      by (rule live)
    show "\<forall>t \<in> set (cleanups ops).
           \<forall>(k', e) \<in> set (timestamps ?c0) \<union> set (writtenEntries ops). t < e"
      by (rule clean)
  qed
  have len: "length (insertedKeys ops) = nat ?m + 1" using assms(1,5) by linarith
  then have one: "length ([] @ insertedKeys ops) - nat (maxSize ?c0) = 1" by simp
  have keys: "map fst (cache (runOps ?c0 ops)) = tl (insertedKeys ops)"
    "map fst (timestamps (runOps ?c0 ops)) = tl (insertedKeys ops)"
    using run unfolding one by (simp_all add: drop_Suc)
  have "length (map fst (cache (runOps ?c0 ops))) = nat ?m" unfolding keys using len by simp
  then have size: "int (length (cache (runOps ?c0 ops))) = ?m" using assms(1) by simp
  have "insertedKeys ops \<noteq> []" using len by auto
  then have "hd (insertedKeys ops) \<notin> set (tl (insertedKeys ops))"
    using assms(2) by (cases "insertedKeys ops") auto
  then have gone: "hd (insertedKeys ops) \<notin> fst ` set (cache (runOps ?c0 ops))"
    using keys(1) by (metis image_set)
  show ?thesis using keys size gone by blast
qed

text \<open>
  On a cache of size two: \<open>A\<close>, \<open>B\<close>, a read of \<open>A\<close>, the cleanup timer, a lookup
  of \<open>B\<close>, then \<open>C\<close>, every entry outliving the run; what is left is \<open>B\<close> and
  \<open>C\<close>.
\<close>

theorem fifo_eviction_witness:
  "map fst (cache (runOps (new_CacheManager sizeTwo) sampleRun)) = [''B'', ''C'']"
proof -
  have h: "1 \<le> maxSize (new_CacheManager sizeTwo :: nat CacheManager)"
    "distinct (insertedKeys sampleRun)" "[] \<notin> set (insertedKeys sampleRun)"
    "Undefined \<notin> set (insertedValues sampleRun)"
    "int (length (insertedKeys sampleRun)) = maxSize (new_CacheManager sizeTwo :: nat CacheManager) + 1"
    "\<forall>(k, t) \<in> set (reads sampleRun). \<forall>(k', e) \<in> set (writtenEntries sampleRun).
           k' = k \<longrightarrow> 0 \<le> t \<and> t < e"
    "\<forall>t \<in> set (cleanups sampleRun). \<forall>(k', e) \<in> set (writtenEntries sampleRun). t < e"
    by (simp_all add: sampleRun_def sizeTwo_def new_CacheManager_def)
  have "tl (insertedKeys sampleRun) = [''B'', ''C'']" by (simp add: sampleRun_def)
  then show ?thesis using fifo_eviction [OF h] by simp
qed

text \<open>
  The claim as it was worded fails on a cache of size two. When \<open>B\<close> has expired by
  the time it is read, the read deletes it, the insertion of \<open>C\<close> evicts nothing, and
  the first key \<open>A\<close> stays. When the second of the three keys is the empty key,
  \<^verbatim>\<open>set\<close> turns it away, and again \<open>A\<close> stays. When nothing is read and \<open>B\<close>
  has expired by the time the cleanup timer fires, the timer deletes it, and again
  \<open>A\<close> stays.
\<close>

theorem fifo_eviction_counterexample:
  "distinct (insertedKeys expiringRun)
   \<and> Undefined \<notin> set (insertedValues expiringRun)
   \<and> length (insertedKeys expiringRun) = 3
   \<and> maxSize (new_CacheManager sizeTwo :: nat CacheManager) = 2
   \<and> map fst (cache (runOps (new_CacheManager sizeTwo) expiringRun)) = [''A'', ''C'']
   \<and> distinct (insertedKeys emptyKeyRun)
   \<and> Undefined \<notin> set (insertedValues emptyKeyRun)
   \<and> length (insertedKeys emptyKeyRun) = 3
   \<and> map fst (cache (runOps (new_CacheManager sizeTwo) emptyKeyRun)) = [''A'', ''C'']
   \<and> distinct (insertedKeys cleanedRun)
   \<and> [] \<notin> set (insertedKeys cleanedRun)
   \<and> Undefined \<notin> set (insertedValues cleanedRun)
   \<and> length (insertedKeys cleanedRun) = 3
   \<and> reads cleanedRun = []
   \<and> map fst (cache (runOps (new_CacheManager sizeTwo) cleanedRun)) = [''A'', ''C'']"
  by (simp add: expiringRun_def emptyKeyRun_def cleanedRun_def sizeTwo_def new_CacheManager_def
      runOps_def CacheManager_set_def CacheManager_get_def CacheManager_delete_def
      CacheManager_cleanup_def enforceMaxSize.simps)

section \<open>JavaScript numbers: the exponent and the rounding\<close>

text \<open>
  \<open>pow2\<close> is the power of two, \<open>exponentOf x\<close> is the exponent of the binade of
  \<open>x\<close>, and \<open>roundHalfEven\<close> is within a half of its argument: \<open>toDouble x\<close> is a
  multiple of the spacing of the doubles around \<open>x\<close>, at most half of that spacing
  away from \<open>x\<close>.
\<close>

lemma pow2_powi: "pow2 e = 2 powi e"
proof (induction e rule: pow2.induct)
  case (1 e)
  show ?case
  proof (cases "e = 0")
    case True
    then show ?thesis by (simp add: pow2.simps [of 0])
  next
    case False
    show ?thesis
    proof (cases "0 < e")
      case True
      have "pow2 e = 2 * pow2 (e - 1)" using True False by (subst pow2.simps) simp
      also have "\<dots> = 2 * 2 powi (e - 1)" using "1.IH"(1) [OF False True] by simp
      also have "\<dots> = 2 powi e" by (simp add: power_int_diff)
      finally show ?thesis .
    next
      case neg: False
      have "pow2 e = pow2 (e + 1) / 2" using neg False by (subst pow2.simps) simp
      also have "\<dots> = 2 powi (e + 1) / 2" using "1.IH"(2) [OF False neg] by simp
      also have "\<dots> = 2 powi e" by (simp add: power_int_add)
      finally show ?thesis .
    qed
  qed
qed

lemma bitLength_bounds:
  "0 < n \<Longrightarrow> 1 \<le> bitLength n \<and> (2::rat) powi (bitLength n - 1) \<le> of_int n
     \<and> of_int n < (2::rat) powi (bitLength n)"
proof (induction n rule: bitLength.induct)
  case (1 n)
  have b: "bitLength n = 1 + bitLength (n div 2)" using "1.prems" by (subst bitLength.simps) simp
  show ?case
  proof (cases "n = 1")
    case True
    have "bitLength (1 div 2) = 0" by (subst bitLength.simps) simp
    then have "bitLength n = 1" using b True by simp
    then show ?thesis using True by simp
  next
    case False
    then have h: "0 < n div 2" using "1.prems" by simp
    have nle: "\<not> n \<le> 0" using "1.prems" by simp
    from "1.IH" [OF nle h]
    have ih: "1 \<le> bitLength (n div 2)"
      "(2::rat) powi (bitLength (n div 2) - 1) \<le> of_int (n div 2)"
      "of_int (n div 2) < (2::rat) powi (bitLength (n div 2))" by simp_all
    let ?k = "bitLength (n div 2)"
    have lo: "(2::rat) powi (?k - 1) * 2 \<le> of_int (2 * (n div 2))" using ih(2) by simp
    have "2 * (n div 2) \<le> n" by simp
    then have "(of_int (2 * (n div 2)) :: rat) \<le> of_int n" by (simp only: of_int_le_iff)
    with lo have lo': "(2::rat) powi (?k - 1) * 2 \<le> of_int n" by linarith
    have p: "(2::rat) powi (?k - 1) * 2 = 2 powi ?k" by (simp add: power_int_diff)
    obtain j :: nat where j: "?k = int j" using ih(1) by (metis nonneg_int_cases order_trans zero_le_one)
    have "n div 2 < 2 ^ j" using ih(3) unfolding j power_int_of_nat
      by (metis of_int_less_iff of_int_numeral of_int_power)
    then have "n div 2 + 1 \<le> 2 ^ j" by simp
    moreover have "n < 2 * (n div 2 + 1)" by arith
    ultimately have "n < 2 * 2 ^ j" by linarith
    then have "(of_int n :: rat) < of_int (2 * 2 ^ j)" by (simp only: of_int_less_iff)
    then have hi: "(of_int n :: rat) < 2 powi (?k + 1)"
      unfolding j by (simp add: power_int_add)
    show ?thesis using ih(1) lo' hi unfolding b p by (simp add: add.commute)
  qed
qed

lemma exponentOf_bounds:
  assumes "x \<noteq> 0"
  shows "2 powi (exponentOf x) \<le> \<bar>x\<bar> \<and> \<bar>x\<bar> < 2 powi (exponentOf x + 1)"
proof -
  obtain p q where pq: "quotient_of \<bar>x\<bar> = (p, q)" by (cases "quotient_of \<bar>x\<bar>")
  have q: "0 < q" using pq by (rule quotient_of_denom_pos)
  have x: "\<bar>x\<bar> = of_int p / of_int q" using pq by (rule quotient_of_div)
  have "0 < \<bar>x\<bar>" using assms by simp
  then have p: "0 < p" using x q by (simp add: zero_less_divide_iff)
  let ?a = "bitLength p" and ?b = "bitLength q"
  note bp = bitLength_bounds [OF p] and bq = bitLength_bounds [OF q]
  have qpos: "(0::rat) < of_int q" using q by simp
  have upper: "\<bar>x\<bar> < 2 powi (?a - ?b + 1)"
  proof -
    have "of_int p / of_int q < (2::rat) powi ?a / of_int q"
      using bp qpos by (simp add: divide_strict_right_mono)
    also have "\<dots> \<le> 2 powi ?a / 2 powi (?b - 1)"
    proof (rule divide_left_mono)
      show "(2::rat) powi (?b - 1) \<le> of_int q" using bq by simp
      show "(0::rat) \<le> 2 powi ?a" by simp
      show "(0::rat) < of_int q * 2 powi (?b - 1)" using qpos by simp
    qed
    also have "\<dots> = 2 powi (?a - ?b + 1)"
      by (simp add: power_int_diff power_int_add)
    finally show ?thesis unfolding x .
  qed
  have lower: "2 powi (?a - ?b - 1) < \<bar>x\<bar>"
  proof -
    have "(2::rat) powi (?a - ?b - 1) = 2 powi (?a - 1) / 2 powi ?b"
      by (simp add: power_int_diff)
    also have "\<dots> < 2 powi (?a - 1) / of_int q"
    proof (rule divide_strict_left_mono)
      show "(of_int q :: rat) < 2 powi ?b" using bq by simp
      show "(0::rat) < 2 powi (?a - 1)" by simp
      show "(0::rat) < 2 powi ?b * of_int q" using qpos by simp
    qed
    also have "\<dots> \<le> of_int p / of_int q"
      using bp qpos by (simp add: divide_right_mono)
    finally show ?thesis unfolding x .
  qed
  show ?thesis
  proof (cases "pow2 (?a - ?b) \<le> \<bar>x\<bar>")
    case True
    then have "exponentOf x = ?a - ?b" by (simp add: exponentOf_def pq Let_def)
    then show ?thesis using True upper by (simp add: pow2_powi)
  next
    case False
    then have e: "exponentOf x = ?a - ?b - 1" by (simp add: exponentOf_def pq Let_def)
    have "\<bar>x\<bar> < 2 powi (?a - ?b)" using False by (simp add: pow2_powi)
    then show ?thesis using lower unfolding e by simp
  qed
qed

lemma roundHalfEven_nearest: "\<bar>of_int (roundHalfEven x) - x\<bar> \<le> 1 / 2"
  unfolding roundHalfEven_def Let_def by (auto simp: abs_if) linarith+

lemma toDouble_nearest:
  assumes "x \<noteq> 0"
  shows "toDouble x
           = of_int (roundHalfEven (x / 2 powi (max (exponentOf x) (- 1022) - 52)))
               * 2 powi (max (exponentOf x) (- 1022) - 52)
       \<and> \<bar>toDouble x - x\<bar> \<le> 2 powi (max (exponentOf x) (- 1022) - 52) / 2"
proof -
  let ?u = "(2::rat) powi (max (exponentOf x) (- 1022) - 52)"
  have u: "0 < ?u" by simp
  have t: "toDouble x = of_int (roundHalfEven (x / ?u)) * ?u"
    using assms by (simp add: toDouble_def Let_def pow2_powi)
  have "\<bar>toDouble x - x\<bar> = \<bar>of_int (roundHalfEven (x / ?u)) - x / ?u\<bar> * ?u"
  proof -
    have "toDouble x - x = (of_int (roundHalfEven (x / ?u)) - x / ?u) * ?u"
      unfolding t using u by (simp add: field_simps)
    then show ?thesis using u by (simp add: abs_mult)
  qed
  also have "\<dots> \<le> 1 / 2 * ?u"
    using roundHalfEven_nearest [of "x / ?u"] u by (intro mult_right_mono) simp_all
  finally show ?thesis using t by simp
qed

section \<open>The performance score\<close>

lemma cascade:
  "(b2 \<Longrightarrow> b1) \<Longrightarrow>
   (if b2 then g (if b1 then f s else s) else (if b1 then f s else s))
     = (if b2 then g (f s) else if b1 then f s else s)"
  by auto

lemma exceeds_mono: "exceeds a 2000 \<Longrightarrow> exceeds a 1000"
  by (auto simp: exceeds_def split: option.splits)

lemma score_unfolded:
  "calculatePerformanceScore m =
     max 0 (min 100 (round
       (let score1 = jsSub 100 (jsMul (errorRatePercent m) 10);
            score2 = (if exceeds (averageLatency m) 1000 then jsSub score1 20 else score1);
            score3 = (if exceeds (averageLatency m) 2000 then jsSub score2 30 else score2);
            score4 = (if 70 < cacheHitRatePercent m then jsAdd score3 10 else score3)
        in if 90 < cacheHitRatePercent m then jsAdd score4 20 else score4)))"
  unfolding calculatePerformanceScore_def errorRatePercent_def averageLatency_def
    cacheHitRatePercent_def Let_def
  by (rule refl)

lemma score_cascade:
  "calculatePerformanceScore m =
     max 0 (min 100 (round
       (let base = jsSub 100 (jsMul (errorRatePercent m) 10);
            slowed = (if exceeds (averageLatency m) 2000 then jsSub (jsSub base 20) 30
                      else if exceeds (averageLatency m) 1000 then jsSub base 20 else base)
        in if 90 < cacheHitRatePercent m then jsAdd (jsAdd slowed 10) 20
           else if 70 < cacheHitRatePercent m then jsAdd slowed 10 else slowed)))"
proof -
  let ?b = "jsSub 100 (jsMul (errorRatePercent m) 10)"
  let ?a = "averageLatency m" and ?h = "cacheHitRatePercent m"
  have l: "(if exceeds ?a 2000 then jsSub (if exceeds ?a 1000 then jsSub ?b 20 else ?b) 30
            else (if exceeds ?a 1000 then jsSub ?b 20 else ?b))
         = (if exceeds ?a 2000 then jsSub (jsSub ?b 20) 30
            else if exceeds ?a 1000 then jsSub ?b 20 else ?b)"
    by (rule cascade [where g = "\<lambda>s. jsSub s 30" and f = "\<lambda>s. jsSub s 20"]) (rule exceeds_mono)
  have h: "(if 90 < ?h then jsAdd (if 70 < ?h then jsAdd s 10 else s) 20
            else (if 70 < ?h then jsAdd s 10 else s))
         = (if 90 < ?h then jsAdd (jsAdd s 10) 20 else if 70 < ?h then jsAdd s 10 else s)" for s
    by (rule cascade [where g = "\<lambda>s. jsAdd s 20" and f = "\<lambda>s. jsAdd s 10"]) simp
  show ?thesis unfolding score_unfolded Let_def l h by (rule refl)
qed

lemma clamp_range: "0 \<le> max 0 (min 100 x) \<and> max 0 (min 100 x) \<le> (100::int)"
  by simp

lemma score_range: "0 \<le> calculatePerformanceScore m \<and> calculatePerformanceScore m \<le> 100"
  unfolding score_unfolded by (rule clamp_range)

lemma toDouble_values:
  "toDouble 100 = 100" "toDouble 80 = 80" "toDouble 50 = 50" "toDouble 110 = 110"
  "toDouble 130 = 130" "toDouble 90 = 90" "toDouble 60 = 60"
  by code_simp+

lemma toDouble_zero [simp]: "toDouble 0 = 0"
  by (simp add: toDouble_def)

lemma score_without_errors:
  assumes "errors m = 0"
  shows "calculatePerformanceScore m =
     min 100 (100
        - (if exceeds (averageLatency m) 2000 then 50
           else if exceeds (averageLatency m) 1000 then 20 else 0)
        + (if 90 < cacheHitRatePercent m then 30
           else if 70 < cacheHitRatePercent m then 10 else 0))"
proof -
  have e: "errorRatePercent m = 0"
    using assms by (simp add: errorRatePercent_def jsMul_def jsDiv_def)
  have b: "jsSub 100 (jsMul (errorRatePercent m) 10) = 100"
    by (simp add: e jsSub_def jsMul_def toDouble_values)
  show ?thesis
    unfolding score_cascade Let_def b
    by (simp add: jsSub_def jsAdd_def toDouble_values)
qed

lemma pow2_nat: "pow2 (int n) = 2 ^ n"
proof (induction n)
  case 0
  show ?case by (simp add: pow2.simps [of 0])
next
  case (Suc n)
  have "pow2 (int (Suc n)) = 2 * pow2 (int (Suc n) - 1)"
    by (subst pow2.simps) simp
  also have "int (Suc n) - 1 = int n" by simp
  finally show ?case using Suc by simp
qed

lemma pow2_1024: "pow2 1024 = 2 ^ 1024"
  using pow2_nat [of 1024] by simp

text \<open>
  With 97 errors in 2000 calls the exact score would be 51.5; the product of the error
  rate and 10 rounds up in double arithmetic, the score falls just below 51.5, and
  \<^verbatim>\<open>Math.round\<close> gives 51.
\<close>

lemma many_calls_score: "calculatePerformanceScore manyCallsMetrics = 51"
proof -
  have d: "jsDiv 97 2000 = 3494793310839505 / 72057594037927936"
    unfolding jsDiv_def by code_simp
  have p: "jsMul (3494793310839505 / 72057594037927936) 100
             = 5460614548186727 / 1125899906842624"
    unfolding jsMul_def by code_simp
  have q: "jsMul (5460614548186727 / 1125899906842624) 10
             = 6825768185233409 / 140737488355328"
    unfolding jsMul_def by code_simp
  have s: "jsSub 100 (6825768185233409 / 140737488355328)
             = 7247980650299391 / 140737488355328"
    unfolding jsSub_def by code_simp
  have r: "round (7247980650299391 / 140737488355328 :: rat) = 51"
    by code_simp
  have z: "jsAdd 0 0 = 0" by (simp add: jsAdd_def)
  show ?thesis
    by (simp add: calculatePerformanceScore_def manyCallsMetrics_def Let_def d p q s r z
        exceeds_def)
qed

text \<open>
  The doubles nearest to 1024.4 and 975.6 have an exact sum above 2000; their double
  sum is 2000, the average is 1000, and no penalty applies.
\<close>

lemma two_loads_score: "calculatePerformanceScore twoLoadsMetrics = 100"
proof -
  have a: "toDouble (2252679422987469 / 2199023255552) = 2252679422987469 / 2199023255552"
    by code_simp
  have b: "toDouble (17592186044416001 / 8796093022208) = 2000"
    by code_simp
  have s: "sumLoadTimes [2252679422987469 / 2199023255552, 8581468352466125 / 8796093022208]
             = Some 2000"
    by (simp add: sumLoadTimes_def jsAddOrInfinity_def a b pow2_1024 Let_def)
  have d: "jsDiv 2000 2 = 1000" unfolding jsDiv_def by code_simp
  have z: "jsAdd 0 0 = 0" by (simp add: jsAdd_def)
  have h: "jsSub 100 (jsMul 0 10) = 100"
    by (simp add: jsSub_def jsMul_def toDouble_values)
  show ?thesis
    by (simp add: calculatePerformanceScore_def twoLoadsMetrics_def Let_def s d z h exceeds_def)
qed

text \<open>
  Claim C2, as the code has it. In every state of the monitor, the score is the clamp to
  the interval from 0 to 100 of the rounding to the nearest integer, a half upwards, of
  the number reached by these steps in double arithmetic: 100 minus ten times the error
  rate in percent; less 20 when the average load time is above 1000 ms and less a
  further 30 when it is above 2000 ms; plus 10 when the cache hit rate is above 70
  percent and plus a further 20 when it is above 90 percent. When no error is recorded,
  these steps are exact: the penalty above 2000 ms is 50 in all and the bonus above 90
  percent is 30 in all. The score is an integer from 0 to 100.
\<close>

theorem performance_score_formula:
  assumes "wellFormedMetrics m"
  shows "calculatePerformanceScore m =
           max 0 (min 100 (round
             (let base = jsSub 100 (jsMul (errorRatePercent m) 10);
                  slowed = (if exceeds (averageLatency m) 2000 then jsSub (jsSub base 20) 30
                            else if exceeds (averageLatency m) 1000 then jsSub base 20
                            else base)
              in if 90 < cacheHitRatePercent m then jsAdd (jsAdd slowed 10) 20
                 else if 70 < cacheHitRatePercent m then jsAdd slowed 10 else slowed)))
       \<and> (errors m = 0 \<longrightarrow>
            calculatePerformanceScore m =
              min 100 (100
                - (if exceeds (averageLatency m) 2000 then 50
                   else if exceeds (averageLatency m) 1000 then 20 else 0)
                + (if 90 < cacheHitRatePercent m then 30
                   else if 70 < cacheHitRatePercent m then 10 else 0)))
       \<and> 0 \<le> calculatePerformanceScore m \<and> calculatePerformanceScore m \<le> 100"
  using score_cascade [of m] score_without_errors [of m] score_range [of m] by blast

lemma slow_rates:
  "errorRatePercent slowMetrics = 0" "averageLatency slowMetrics = Some 3000"
  "cacheHitRatePercent slowMetrics = 0"
proof -
  have a: "toDouble 3000 = 3000" by code_simp
  have d: "jsDiv 3000 1 = 3000" by (simp add: jsDiv_def a)
  show "errorRatePercent slowMetrics = 0" by (simp add: errorRatePercent_def slowMetrics_def)
  show "averageLatency slowMetrics = Some 3000"
    by (simp add: averageLatency_def slowMetrics_def sumLoadTimes_def jsAddOrInfinity_def a d
        pow2_1024 Let_def)
  show "cacheHitRatePercent slowMetrics = 0"
    by (simp add: cacheHitRatePercent_def slowMetrics_def jsAdd_def)
qed

lemma hit_rates:
  "errorRatePercent hitMetrics = 4" "averageLatency hitMetrics = Some 0"
  "cacheHitRatePercent hitMetrics = 100"
proof -
  have d: "jsDiv 1 25 = 5764607523034235 / 144115188075855872" unfolding jsDiv_def by code_simp
  have p: "jsMul (5764607523034235 / 144115188075855872) 100 = 4" unfolding jsMul_def by code_simp
  have t: "jsAdd 1 0 = 1" "jsDiv 1 1 = 1" "jsMul 1 100 = 100"
    unfolding jsAdd_def jsDiv_def jsMul_def by code_simp+
  show "errorRatePercent hitMetrics = 4" by (simp add: errorRatePercent_def hitMetrics_def d p)
  show "averageLatency hitMetrics = Some 0" by (simp add: averageLatency_def hitMetrics_def)
  show "cacheHitRatePercent hitMetrics = 100"
    by (simp add: cacheHitRatePercent_def hitMetrics_def t)
qed

lemma third_rates:
  "errorRatePercent thirdMetrics = 3002399751580331 / 9007199254740992" "averageLatency thirdMetrics = Some 0"
  "cacheHitRatePercent thirdMetrics = 0"
proof -
  have d: "jsDiv 1 300 = 7686143364045647 / 2305843009213693952" unfolding jsDiv_def by code_simp
  have p: "jsMul (7686143364045647 / 2305843009213693952) 100 = 3002399751580331 / 9007199254740992" unfolding jsMul_def by code_simp
  show "errorRatePercent thirdMetrics = 3002399751580331 / 9007199254740992"
    by (simp add: errorRatePercent_def thirdMetrics_def d p)
  show "averageLatency thirdMetrics = Some 0" by (simp add: averageLatency_def thirdMetrics_def)
  show "cacheHitRatePercent thirdMetrics = 0"
    by (simp add: cacheHitRatePercent_def thirdMetrics_def jsAdd_def)
qed

lemma well_formed_samples:
  "wellFormedMetrics slowMetrics" "wellFormedMetrics hitMetrics" "wellFormedMetrics thirdMetrics"
proof -
  have a: "toDouble 3000 = 3000" by code_simp
  show "wellFormedMetrics slowMetrics"
    by (simp add: wellFormedMetrics_def slowMetrics_def isDouble_def a pow2_1024)
  show "wellFormedMetrics hitMetrics" by (simp add: wellFormedMetrics_def hitMetrics_def)
  show "wellFormedMetrics thirdMetrics" by (simp add: wellFormedMetrics_def thirdMetrics_def)
qed

lemma third_steps:
  "jsMul (3002399751580331 / 9007199254740992) 10 = 1876499844737707 / 562949953421312" "jsSub 100 (1876499844737707 / 562949953421312) = 6802311937174187 / 70368744177664" "round (6802311937174187 / 70368744177664 :: rat) = 97"
  unfolding jsMul_def jsSub_def by code_simp+

lemma hit_steps:
  "jsMul 4 10 = 40" "jsSub 100 40 = 60" "jsAdd 60 10 = 70" "jsAdd 70 20 = 90"
  unfolding jsMul_def jsSub_def jsAdd_def by code_simp+

text \<open>
  The formula on the monitor with one slow load and no error, 100 less 50, and on the
  monitor with one error in 300 calls, where the steps round.
\<close>

theorem performance_score_formula_witness:
  "calculatePerformanceScore slowMetrics = 50 \<and> calculatePerformanceScore thirdMetrics = 97"
proof -
  have e: "errors slowMetrics = 0" by (simp add: slowMetrics_def)
  have "calculatePerformanceScore slowMetrics = 50"
    using performance_score_formula [OF well_formed_samples(1)] e
    by (simp add: slow_rates exceeds_def)
  moreover have "calculatePerformanceScore thirdMetrics = 97"
    using performance_score_formula [OF well_formed_samples(3)]
    by (simp add: third_rates exceeds_def third_steps Let_def)
  ultimately show ?thesis by blast
qed

text \<open>
  The score as the specification words it differs from the code on each of the three
  sample monitors: a load time above 2000 ms costs 50, not 30; a hit rate above 90
  percent earns 30, not 20; and the code rounds where the specification does not.
\<close>

theorem performance_score_counterexample:
  "calculatePerformanceScore slowMetrics = 50 \<and> specified_score slowMetrics = 70
   \<and> calculatePerformanceScore hitMetrics = 90 \<and> specified_score hitMetrics = 80
   \<and> calculatePerformanceScore thirdMetrics = 97 \<and> specified_score thirdMetrics < 97"
proof (intro conjI)
  show "calculatePerformanceScore slowMetrics = 50"
    unfolding score_cascade Let_def slow_rates
    by (simp add: exceeds_def jsSub_def jsMul_def toDouble_values)
  show "specified_score slowMetrics = 70"
    by (simp add: specified_score_def slow_rates exceeds_def)
  show "calculatePerformanceScore hitMetrics = 90"
    unfolding score_cascade Let_def hit_rates
    by (simp add: exceeds_def hit_steps)
  show "specified_score hitMetrics = 80"
    by (simp add: specified_score_def hit_rates exceeds_def)
  show "calculatePerformanceScore thirdMetrics = 97"
    unfolding score_cascade Let_def third_rates
    by (simp add: exceeds_def third_steps)
  show "specified_score thirdMetrics < 97"
    by (simp add: specified_score_def third_rates exceeds_def)
qed

section \<open>fetchStockData: the paths of the try block\<close>

lemma try_invalid:
  "\<not> validateStockSymbol symbol \<Longrightarrow>
   fetchStockData_try cfg env symbol allowMockData app =
     (Inl (Error ''Invalid stock symbol provided''), app)"
  by (simp add: fetchStockData_try_def)

lemma try_no_config:
  assumes "validateStockSymbol symbol" and "missed env symbol app" and "\<not> configured cfg"
  shows "fetchStockData_try cfg env symbol allowMockData app =
     (if \<not> allowMockData
      then (Inl (Error ''API configuration not available and mock data not allowed''),
            afterMiss env symbol app)
      else (case mockFor env symbol of
              Inl e \<Rightarrow> (Inl e, afterMiss env symbol app)
            | Inr mockData \<Rightarrow>
                (Inr mockData,
                 cacheStock env symbol mockData MOCK_DURATION (afterMiss env symbol app))))"
proof -
  obtain r cm where g: "CacheManager_get (cacheManager app) (cacheKey symbol) (nowAtGet env) = (r, cm)"
    by (cases "CacheManager_get (cacheManager app) (cacheKey symbol) (nowAtGet env)")
  have nc: "\<not> isConfigLoaded cfg \<or> (case ALPHA_VANTAGE_KEY cfg of None \<Rightarrow> True | Some k \<Rightarrow> k = [])"
    using assms(3) by (auto simp: configured_def split: option.splits)
  have am: "afterMiss env symbol app =
      app\<lparr> cacheManager := cm,
           performanceMonitor := recordAPICall (recordCacheMiss (performanceMonitor app)) 0 \<rparr>"
    by (simp add: afterMiss_def g)
  show ?thesis
    unfolding am using assms(1,2) nc
    by (cases r) (simp_all add: fetchStockData_try_def g missed_def Let_def)
qed

lemma try_remote_failure:
  assumes "validateStockSymbol symbol" and "missed env symbol app" and "configured cfg"
    and "configLoader cfg \<noteq> Some True" and "remoteFailure (remote env) = Some err"
  shows "fetchStockData_try cfg env symbol allowMockData app =
     (Inl err, (afterMiss env symbol app)\<lparr> remoteCalls := remoteCalls app + 1 \<rparr>)"
proof -
  obtain r cm where g: "CacheManager_get (cacheManager app) (cacheKey symbol) (nowAtGet env) = (r, cm)"
    by (cases "CacheManager_get (cacheManager app) (cacheKey symbol) (nowAtGet env)")
  have c: "\<not> (\<not> isConfigLoaded cfg \<or> (case ALPHA_VANTAGE_KEY cfg of None \<Rightarrow> True | Some k \<Rightarrow> k = []))"
    using assms(3) by (auto simp: configured_def split: option.splits)
  have am: "afterMiss env symbol app =
      app\<lparr> cacheManager := cm,
           performanceMonitor := recordAPICall (recordCacheMiss (performanceMonitor app)) 0 \<rparr>"
    by (simp add: afterMiss_def g)
  show ?thesis
    using assms(1,2,4,5) c
    by (cases r; cases "remote env")
       (auto simp: fetchStockData_try_def g am missed_def remoteFailure_def Let_def
             split: option.splits if_splits)
qed

lemma try_empty_payload:
  assumes "validateStockSymbol symbol" and "missed env symbol app" and "configured cfg"
    and "configLoader cfg \<noteq> Some True" and "remote env = JsonBody None"
  shows "fetchStockData_try cfg env symbol allowMockData app =
     (if \<not> allowMockData
      then (Inl (Error ''Invalid stock symbol or API limit reached''),
            (afterMiss env symbol app)\<lparr> remoteCalls := remoteCalls app + 1 \<rparr>)
      else (case mockFor env symbol of
              Inl e \<Rightarrow> (Inl e, (afterMiss env symbol app)\<lparr> remoteCalls := remoteCalls app + 1 \<rparr>)
            | Inr generated \<Rightarrow>
                (Inr (generated\<lparr> isMockData := Some True, source := Some ''api_fallback'' \<rparr>),
                 cacheStock env symbol
                   (generated\<lparr> isMockData := Some True, source := Some ''api_fallback'' \<rparr>)
                   MOCK_DURATION
                   ((afterMiss env symbol app)\<lparr> remoteCalls := remoteCalls app + 1 \<rparr>))))"
proof -
  obtain r cm where g: "CacheManager_get (cacheManager app) (cacheKey symbol) (nowAtGet env) = (r, cm)"
    by (cases "CacheManager_get (cacheManager app) (cacheKey symbol) (nowAtGet env)")
  have c: "\<not> (\<not> isConfigLoaded cfg \<or> (case ALPHA_VANTAGE_KEY cfg of None \<Rightarrow> True | Some k \<Rightarrow> k = []))"
    using assms(3) by (auto simp: configured_def split: option.splits)
  have am: "afterMiss env symbol app =
      app\<lparr> cacheManager := cm,
           performanceMonitor := recordAPICall (recordCacheMiss (performanceMonitor app)) 0 \<rparr>"
    by (simp add: afterMiss_def g)
  show ?thesis
    using assms(1,2,4,5) c
    by (cases r; cases "mockFor env symbol")
       (auto simp: fetchStockData_try_def g am missed_def Let_def)
qed

lemma cacheKey_nonempty: "cacheKey symbol \<noteq> []"
  by (simp add: cacheKey_def)

lemma cacheStock_entry:
  "cachedUnder (cacheStock env symbol info d app) symbol info (nowAtSet env + d)"
  by (simp add: cachedUnder_def cacheStock_def CacheManager_set_def cacheKey_nonempty Let_def
      update_conv')

lemma cacheStock_frame:
  "performanceMonitor (cacheStock env symbol info d app) = performanceMonitor app"
  "remoteCalls (cacheStock env symbol info d app) = remoteCalls app"
  "hitCount (cacheManager (cacheStock env symbol info d app)) = hitCount (cacheManager app)"
  "missCount (cacheManager (cacheStock env symbol info d app)) = missCount (cacheManager app)"
  by (simp_all add: cacheStock_def CacheManager_set_def cacheKey_nonempty Let_def)

lemma recordError_frame:
  "apiCalls (recordError m e ctx) = apiCalls m"
  "cacheHits (recordError m e ctx) = cacheHits m"
  "cacheMisses (recordError m e ctx) = cacheMisses m"
  "errors (recordError m e ctx) = errors m + 1"
  by (simp_all add: recordError_def Let_def)

lemma mock_fails_iff:
  "(\<exists>e. mockFor env symbol = Inl e) \<longleftrightarrow> basePrices symbol = Inherited"
  by (auto simp: mockFor_def generateMockStockData_def Let_def split: property.splits)

lemma mock_inherited:
  "basePrices symbol = Inherited \<Longrightarrow>
   mockFor env symbol = Inl (TypeError ''basePrice.toFixed is not a function'')"
  by (simp add: mockFor_def generateMockStockData_def)

lemma mock_marks:
  "mockFor env symbol = Inr g \<Longrightarrow>
   isMockData g = Some True \<and> errorReason g = None \<and> source g = Some ''mock_generator''"
  by (auto simp: mockFor_def generateMockStockData_def Let_def split: property.splits)

lemma toFixed2_positive: "1 \<le> x \<Longrightarrow> 0 < toFixed2 x"
proof -
  assume "1 \<le> x"
  then have "1 \<le> x * 100 + 1 / 2" by simp
  then have "1 \<le> round (x * 100)" unfolding round_def by (simp add: le_floor_iff)
  then show ?thesis using \<open>1 \<le> x\<close> by (simp add: toFixed2_def)
qed

lemma own_price_bound: "basePrices symbol = OwnNumber p \<Longrightarrow> 110 \<le> p"
  by (auto simp: basePrices_def split: option.splits if_splits)

lemma mock_price_positive:
  assumes "mockFor env symbol = Inr g" and "0 \<le> random1 env"
  shows "0 < price g"
proof (cases "basePrices symbol")
  case (OwnNumber p)
  then have "1 \<le> p" using own_price_bound [of symbol p] by simp
  then have "0 < toFixed2 p" by (rule toFixed2_positive)
  then show ?thesis using assms(1) OwnNumber
    by (auto simp: mockFor_def generateMockStockData_def Let_def)
next
  case Inherited
  then show ?thesis using assms(1) by (simp add: mock_inherited)
next
  case Missing
  have "1 \<le> random1 env * 400 + 50" using assms(2) by simp
  then have "0 < toFixed2 (random1 env * 400 + 50)" by (rule toFixed2_positive)
  then show ?thesis using assms(1) Missing
    by (auto simp: mockFor_def generateMockStockData_def Let_def)
qed


lemma durations_ordered: "ERROR_DURATION < MOCK_DURATION"
  by (simp add: ERROR_DURATION_def MOCK_DURATION_def)


lemma valid_AAPL: "validateStockSymbol ''AAPL''"
  by code_simp

lemma sanitize_AAPL: "sanitizeInput ''AAPL'' None = ''AAPL''"
  by code_simp

lemma missed_fresh: "missed env symbol freshApp"
  by (simp add: missed_def freshApp_def new_CacheManager_def CacheManager_get_def)

lemma mock_AAPL: "mockFor (sampleEnv\<lparr> remote := r \<rparr>) ''AAPL'' = Inr aaplMock"
  by (simp add: mockFor_def generateMockStockData_def basePrices_def sampleEnv_def aaplMock_def
      sanitize_AAPL toFixed2_def)

lemma configured_live: "configured liveConfig" "configLoader liveConfig \<noteq> Some True"
  by (simp_all add: configured_def liveConfig_def)


lemma valid_toString: "validateStockSymbol ''toString''"
  by code_simp

lemma inherited_toString: "basePrices ''toString'' = Inherited"
  by (simp add: basePrices_def ObjectPrototypeNames_def)

lemma not_configured_noConfig: "\<not> configured noConfig"
  by (simp add: configured_def noConfig_def)


section \<open>fetchStockData: an identifier that is not valid\<close>

text \<open>
  The part of the rejection that the code keeps. For an identifier that fails
  \<^verbatim>\<open>validateStockSymbol\<close>: called with \<^verbatim>\<open>allowMockData = false\<close>,
  \<^verbatim>\<open>fetchStockData\<close> rejects with the error \<open>Invalid stock symbol provided\<close> and
  changes nothing but the error record of the monitor. Whatever \<^verbatim>\<open>allowMockData\<close>
  is, the cache is not read (its hit and miss counters stand), no request is sent, the
  API-call counter stands, and one error is recorded.
\<close>

lemma invalid_symbol_without_mock:
  assumes "\<not> validateStockSymbol symbol"
  shows "fetchStockData cfg env symbol False app =
           (Inl (Error ''Invalid stock symbol provided''),
            app\<lparr> performanceMonitor :=
                   recordError (performanceMonitor app)
                     (Error ''Invalid stock symbol provided'') ''stock_fetch'' \<rparr>)
       \<and> hitCount (cacheManager (snd (fetchStockData cfg env symbol allowMockData app)))
           = hitCount (cacheManager app)
       \<and> missCount (cacheManager (snd (fetchStockData cfg env symbol allowMockData app)))
           = missCount (cacheManager app)
       \<and> remoteCalls (snd (fetchStockData cfg env symbol allowMockData app)) = remoteCalls app
       \<and> apiCalls (performanceMonitor (snd (fetchStockData cfg env symbol allowMockData app)))
           = apiCalls (performanceMonitor app)
       \<and> errors (performanceMonitor (snd (fetchStockData cfg env symbol allowMockData app)))
           = errors (performanceMonitor app) + 1"
proof -
  have f: "fetchStockData cfg env symbol b app =
      fetchStockData_catch env symbol b (Error ''Invalid stock symbol provided'') app" for b
    by (simp add: fetchStockData_def try_invalid [OF assms])
  have "fetchStockData cfg env symbol False app =
           (Inl (Error ''Invalid stock symbol provided''),
            app\<lparr> performanceMonitor :=
                   recordError (performanceMonitor app)
                     (Error ''Invalid stock symbol provided'') ''stock_fetch'' \<rparr>)"
    by (simp add: f fetchStockData_catch_def)
  moreover have "hitCount (cacheManager (snd (fetchStockData cfg env symbol allowMockData app)))
           = hitCount (cacheManager app)
       \<and> missCount (cacheManager (snd (fetchStockData cfg env symbol allowMockData app)))
           = missCount (cacheManager app)
       \<and> remoteCalls (snd (fetchStockData cfg env symbol allowMockData app)) = remoteCalls app
       \<and> apiCalls (performanceMonitor (snd (fetchStockData cfg env symbol allowMockData app)))
           = apiCalls (performanceMonitor app)
       \<and> errors (performanceMonitor (snd (fetchStockData cfg env symbol allowMockData app)))
           = errors (performanceMonitor app) + 1"
    by (cases "mockFor env symbol")
       (simp_all add: f fetchStockData_catch_def Let_def cacheStock_frame recordError_frame)
  ultimately show ?thesis by blast
qed

text \<open>
  Claim C1 fails on the code when mock data is allowed. The validation error is thrown
  inside the \<^verbatim>\<open>try\<close> block, whose \<^verbatim>\<open>catch\<close> block takes it like a failure of
  the remote call: for an identifier that fails \<^verbatim>\<open>validateStockSymbol\<close>, where
  the generator returns, the call with \<^verbatim>\<open>allowMockData = true\<close> does not reject. It
  resolves to the mock data of the generator, tagged with the message of the
  validation error, and writes that to the cache under the key of the identifier, for
  \<^const>\<open>ERROR_DURATION\<close>; the state it leaves is the one with the error recorded and
  that entry written.
\<close>

theorem invalid_symbol_resolves_to_mock:
  assumes "\<not> validateStockSymbol symbol" and "mockFor env symbol = Inr generated"
  shows "fetchStockData cfg env symbol True app =
           (Inr (generated\<lparr> isMockData := Some True,
                   errorReason := Some ''Invalid stock symbol provided'' \<rparr>),
            cacheStock env symbol
              (generated\<lparr> isMockData := Some True,
                  errorReason := Some ''Invalid stock symbol provided'' \<rparr>)
              ERROR_DURATION
              (app\<lparr> performanceMonitor :=
                   recordError (performanceMonitor app)
                     (Error ''Invalid stock symbol provided'') ''stock_fetch'' \<rparr>))
       \<and> cachedUnder (snd (fetchStockData cfg env symbol True app)) symbol
           (generated\<lparr> isMockData := Some True,
               errorReason := Some ''Invalid stock symbol provided'' \<rparr>)
           (nowAtSet env + ERROR_DURATION)"
proof -
  have f: "fetchStockData cfg env symbol True app =
           (Inr (generated\<lparr> isMockData := Some True,
                   errorReason := Some ''Invalid stock symbol provided'' \<rparr>),
            cacheStock env symbol
              (generated\<lparr> isMockData := Some True,
                  errorReason := Some ''Invalid stock symbol provided'' \<rparr>)
              ERROR_DURATION
              (app\<lparr> performanceMonitor :=
                   recordError (performanceMonitor app)
                     (Error ''Invalid stock symbol provided'') ''stock_fetch'' \<rparr>))"
    by (simp add: fetchStockData_def try_invalid [OF assms(1)] fetchStockData_catch_def assms(2)
        Let_def)
  show ?thesis unfolding f by (simp add: cacheStock_entry)
qed

text \<open>
  The empty identifier, on the application at its start, whose cache is empty: the
  call resolves, and the cache holds the mock data under the key \<open>stock_\<close>.
\<close>

theorem invalid_symbol_resolves_to_mock_witness:
  "\<not> validateStockSymbol []
   \<and> fst (fetchStockData liveConfig sampleEnv [] True freshApp) =
       Inr \<lparr> stockSymbol = [], price = 50, change = 0, changePercent = 0,
             lastUpdated = ''2025-11-25T00:00:00.000Z'', isMockData = Some True,
             source = Some ''mock_generator'',
             errorReason = Some ''Invalid stock symbol provided'' \<rparr>
   \<and> map fst (cache (cacheManager (snd (fetchStockData liveConfig sampleEnv [] True freshApp))))
       = [''stock_'']
   \<and> map_of (timestamps (cacheManager (snd (fetchStockData liveConfig sampleEnv [] True freshApp))))
       ''stock_'' = Some 11200
   \<and> cache (cacheManager freshApp) = []"
proof -
  have h: "\<not> validateStockSymbol []" by (simp add: validateStockSymbol_def)
  have s: "sanitizeInput [] None = []" by code_simp
  have m: "mockFor sampleEnv [] =
      Inr \<lparr> stockSymbol = [], price = 50, change = 0, changePercent = 0,
             lastUpdated = ''2025-11-25T00:00:00.000Z'', isMockData = Some True,
             source = Some ''mock_generator'', errorReason = None \<rparr>"
    by (simp add: mockFor_def generateMockStockData_def basePrices_def ObjectPrototypeNames_def
        sampleEnv_def s toFixed2_def)
  have e: "enforceMaxSize (cacheManager freshApp) = cacheManager freshApp"
    by (simp add: enforceMaxSize.simps freshApp_def new_CacheManager_def MAX_SIZE_def)
  have c: "cache (cacheManager freshApp) = []" "timestamps (cacheManager freshApp) = []"
    by (simp_all add: freshApp_def new_CacheManager_def)
  have t: "nowAtSet sampleEnv = 1200" by (simp add: sampleEnv_def)
  show ?thesis
    using h c invalid_symbol_resolves_to_mock [OF h m, of liveConfig freshApp]
    by (simp add: cacheStock_def CacheManager_set_def cacheKey_def e t ERROR_DURATION_def)
qed

section \<open>fetchStockData: the remote call fails\<close>

text \<open>
  Claim C4, as the code has it. The identifier is valid, the cache has no entry for it,
  and the configuration is there and not in demo mode; \<open>generated\<close> is what the
  generator of mock data returns, when it returns. When the remote call throws (a timeout or transport error, a
  status that is not \<^verbatim>\<open>ok\<close>, a body that does not parse, a price that is not
  positive): with \<^verbatim>\<open>allowMockData = true\<close> the call resolves to the mock data tagged
  with the message of the error, cached for \<^const>\<open>ERROR_DURATION\<close>; with
  \<^verbatim>\<open>allowMockData = false\<close> it rejects with that error. When the body has no quote:
  with \<^verbatim>\<open>allowMockData = true\<close> the call resolves to the mock data marked
  \<open>api_fallback\<close>, without an error reason, cached for \<^const>\<open>MOCK_DURATION\<close>; with
  \<^verbatim>\<open>allowMockData = false\<close> it rejects with the error \<open>Invalid stock symbol or API
  limit reached\<close>. \<^const>\<open>ERROR_DURATION\<close> is shorter than \<^const>\<open>MOCK_DURATION\<close>.
\<close>

theorem remote_failure_fallback:
  assumes "validateStockSymbol symbol" and "missed env symbol app" and "configured cfg"
    and "configLoader cfg \<noteq> Some True"
  shows "(\<forall>err. remoteFailure (remote env) = Some err \<longrightarrow>
            fst (fetchStockData cfg env symbol False app) = Inl err
          \<and> (\<forall>generated. mockFor env symbol = Inr generated \<longrightarrow>
                fst (fetchStockData cfg env symbol True app)
                  = Inr (generated\<lparr> isMockData := Some True,
                            errorReason := Some (message err) \<rparr>)
              \<and> cachedUnder (snd (fetchStockData cfg env symbol True app)) symbol
                   (generated\<lparr> isMockData := Some True, errorReason := Some (message err) \<rparr>)
                   (nowAtSet env + ERROR_DURATION)))
       \<and> (remote env = JsonBody None \<longrightarrow>
            fst (fetchStockData cfg env symbol False app)
              = Inl (Error ''Invalid stock symbol or API limit reached'')
          \<and> (\<forall>generated. mockFor env symbol = Inr generated \<longrightarrow>
                fst (fetchStockData cfg env symbol True app)
                  = Inr (generated\<lparr> isMockData := Some True, source := Some ''api_fallback'' \<rparr>)
              \<and> errorReason
                   (generated\<lparr> isMockData := Some True, source := Some ''api_fallback'' \<rparr>) = None
              \<and> cachedUnder (snd (fetchStockData cfg env symbol True app)) symbol
                   (generated\<lparr> isMockData := Some True, source := Some ''api_fallback'' \<rparr>)
                   (nowAtSet env + MOCK_DURATION)))
       \<and> ERROR_DURATION < MOCK_DURATION"
proof (intro conjI allI impI)
  fix err assume r: "remoteFailure (remote env) = Some err"
  note t = try_remote_failure [OF assms r]
  show "fst (fetchStockData cfg env symbol False app) = Inl err"
    by (simp add: fetchStockData_def t fetchStockData_catch_def)
  fix generated assume g: "mockFor env symbol = Inr generated"
  show "fst (fetchStockData cfg env symbol True app)
          = Inr (generated\<lparr> isMockData := Some True, errorReason := Some (message err) \<rparr>)"
    by (simp add: fetchStockData_def t fetchStockData_catch_def g Let_def)
  show "cachedUnder (snd (fetchStockData cfg env symbol True app)) symbol
          (generated\<lparr> isMockData := Some True, errorReason := Some (message err) \<rparr>)
          (nowAtSet env + ERROR_DURATION)"
    by (simp add: fetchStockData_def t fetchStockData_catch_def g Let_def cacheStock_entry)
next
  assume r: "remote env = JsonBody None"
  note t = try_empty_payload [OF assms r]
  show "fst (fetchStockData cfg env symbol False app)
          = Inl (Error ''Invalid stock symbol or API limit reached'')"
    by (simp add: fetchStockData_def t fetchStockData_catch_def)
  fix generated assume g: "mockFor env symbol = Inr generated"
  show "fst (fetchStockData cfg env symbol True app)
          = Inr (generated\<lparr> isMockData := Some True, source := Some ''api_fallback'' \<rparr>)"
    by (simp add: fetchStockData_def t g)
  show "errorReason (generated\<lparr> isMockData := Some True, source := Some ''api_fallback'' \<rparr>) = None"
    using mock_marks [OF g] by simp
  show "cachedUnder (snd (fetchStockData cfg env symbol True app)) symbol
          (generated\<lparr> isMockData := Some True, source := Some ''api_fallback'' \<rparr>)
          (nowAtSet env + MOCK_DURATION)"
    by (simp add: fetchStockData_def t g cacheStock_entry)
next
  show "ERROR_DURATION < MOCK_DURATION" by (rule durations_ordered)
qed

text \<open>
  \<open>AAPL\<close> on the application at its start: the remote call times out, and the remote
  call answers with an empty body; the clock shows 1200 at the cache write.
\<close>

theorem remote_failure_fallback_witness:
  "fst (fetchStockData liveConfig (sampleEnv\<lparr> remote := FetchRejected (TimeoutError ''timed out'') \<rparr>)
          ''AAPL'' True freshApp)
     = Inr (aaplMock\<lparr> errorReason := Some ''timed out'' \<rparr>)
   \<and> map_of (timestamps (cacheManager (snd (fetchStockData liveConfig
          (sampleEnv\<lparr> remote := FetchRejected (TimeoutError ''timed out'') \<rparr>) ''AAPL'' True freshApp))))
        ''stock_AAPL'' = Some 11200
   \<and> fst (fetchStockData liveConfig (sampleEnv\<lparr> remote := FetchRejected (TimeoutError ''timed out'') \<rparr>)
          ''AAPL'' False freshApp)
     = Inl (TimeoutError ''timed out'')
   \<and> fst (fetchStockData liveConfig (sampleEnv\<lparr> remote := JsonBody None \<rparr>) ''AAPL'' True freshApp)
     = Inr (aaplMock\<lparr> source := Some ''api_fallback'' \<rparr>)
   \<and> map_of (timestamps (cacheManager (snd (fetchStockData liveConfig
          (sampleEnv\<lparr> remote := JsonBody None \<rparr>) ''AAPL'' True freshApp))))
        ''stock_AAPL'' = Some 31200"
proof -
  have f: "remoteFailure (remote (sampleEnv\<lparr> remote := FetchRejected (TimeoutError ''timed out'') \<rparr>))
             = Some (TimeoutError ''timed out'')"
    by (simp add: remoteFailure_def)
  have n: "remote (sampleEnv\<lparr> remote := JsonBody None \<rparr>) = JsonBody None" by simp
  have t: "nowAtSet (sampleEnv\<lparr> remote := r \<rparr>) = 1200" for r by (simp add: sampleEnv_def)
  have a: "aaplMock\<lparr> isMockData := Some True, errorReason := Some ''timed out'' \<rparr>
             = aaplMock\<lparr> errorReason := Some ''timed out'' \<rparr>"
    "aaplMock\<lparr> isMockData := Some True, source := Some ''api_fallback'' \<rparr>
             = aaplMock\<lparr> source := Some ''api_fallback'' \<rparr>"
    by (simp_all add: aaplMock_def)
  show ?thesis
    using remote_failure_fallback [OF valid_AAPL missed_fresh configured_live,
        of "sampleEnv\<lparr> remote := FetchRejected (TimeoutError ''timed out'') \<rparr>"] f
      remote_failure_fallback [OF valid_AAPL missed_fresh configured_live,
        of "sampleEnv\<lparr> remote := JsonBody None \<rparr>"] n
      mock_AAPL
    by (simp add: cachedUnder_def cacheKey_def t a ERROR_DURATION_def MOCK_DURATION_def)
qed

text \<open>
  The claim as it was worded fails for the empty body: the mock data carries no error
  reason, and its entry expires after \<^const>\<open>MOCK_DURATION\<close>, not after
  \<^const>\<open>ERROR_DURATION\<close>.
\<close>

theorem remote_failure_counterexample:
  "fst (fetchStockData liveConfig sampleEnv ''AAPL'' True freshApp)
     = Inr (aaplMock\<lparr> source := Some ''api_fallback'' \<rparr>)
   \<and> errorReason (aaplMock\<lparr> source := Some ''api_fallback'' \<rparr>) = None
   \<and> map_of (timestamps (cacheManager (snd (fetchStockData liveConfig sampleEnv ''AAPL'' True
        freshApp)))) ''stock_AAPL'' = Some (nowAtSet sampleEnv + MOCK_DURATION)
   \<and> nowAtSet sampleEnv + MOCK_DURATION \<noteq> nowAtSet sampleEnv + ERROR_DURATION"
proof -
  have r: "remote sampleEnv = JsonBody None" by (simp add: sampleEnv_def)
  have m: "mockFor sampleEnv ''AAPL'' = Inr aaplMock"
    using mock_AAPL [of "JsonBody None"] by (simp add: sampleEnv_def)
  note t = try_empty_payload [OF valid_AAPL missed_fresh configured_live r]
  have a: "aaplMock\<lparr> isMockData := Some True, source := Some ''api_fallback'' \<rparr>
             = aaplMock\<lparr> source := Some ''api_fallback'' \<rparr>"
    by (simp add: aaplMock_def)
  have c: "cachedUnder (cacheStock sampleEnv ''AAPL'' (aaplMock\<lparr> source := Some ''api_fallback'' \<rparr>)
             MOCK_DURATION app) ''AAPL'' (aaplMock\<lparr> source := Some ''api_fallback'' \<rparr>)
             (nowAtSet sampleEnv + MOCK_DURATION)" for app
    by (rule cacheStock_entry)
  show ?thesis
    using c
    by (simp add: fetchStockData_def t m a cachedUnder_def cacheKey_def aaplMock_def
        MOCK_DURATION_def ERROR_DURATION_def)
qed

section \<open>fetchStockData: no configuration\<close>

text \<open>
  A valid identifier, no configuration, no entry in the cache. When mock data is not
  allowed, the call rejects with the configuration error. When it is allowed and the
  generator returns (the identifier names no property inherited from
  \<^verbatim>\<open>Object.prototype\<close>), the call resolves to the mock data, whose price is positive
  for a random number that is not negative, cached for \<^const>\<open>MOCK_DURATION\<close>.
\<close>

lemma no_config_fallback:
  assumes "validateStockSymbol symbol" and "missed env symbol app" and "\<not> configured cfg"
  shows "fetchStockData cfg env symbol False app =
           (Inl (Error ''API configuration not available and mock data not allowed''),
            (afterMiss env symbol app)\<lparr> performanceMonitor :=
               recordError (performanceMonitor (afterMiss env symbol app))
                 (Error ''API configuration not available and mock data not allowed'')
                 ''stock_fetch'' \<rparr>)"
    and "mockFor env symbol = Inr generated \<Longrightarrow> 0 \<le> random1 env \<Longrightarrow>
         fst (fetchStockData cfg env symbol True app) = Inr generated
         \<and> isMockData generated = Some True \<and> 0 < price generated
         \<and> cachedUnder (snd (fetchStockData cfg env symbol True app)) symbol generated
              (nowAtSet env + MOCK_DURATION)"
proof -
  note t = try_no_config [OF assms]
  show "fetchStockData cfg env symbol False app =
           (Inl (Error ''API configuration not available and mock data not allowed''),
            (afterMiss env symbol app)\<lparr> performanceMonitor :=
               recordError (performanceMonitor (afterMiss env symbol app))
                 (Error ''API configuration not available and mock data not allowed'')
                 ''stock_fetch'' \<rparr>)"
    by (simp add: fetchStockData_def t fetchStockData_catch_def)
  assume m: "mockFor env symbol = Inr generated" and r: "0 \<le> random1 env"
  show "fst (fetchStockData cfg env symbol True app) = Inr generated
         \<and> isMockData generated = Some True \<and> 0 < price generated
         \<and> cachedUnder (snd (fetchStockData cfg env symbol True app)) symbol generated
              (nowAtSet env + MOCK_DURATION)"
    using mock_marks [OF m] mock_price_positive [OF m r]
    by (simp add: fetchStockData_def t m cacheStock_entry)
qed


text \<open>
  Claim C6 fails on the code for a valid identifier that names a property inherited
  from \<^verbatim>\<open>Object.prototype\<close>: without a configuration and without an entry in the
  cache, the call with \<^verbatim>\<open>allowMockData = true\<close> does not resolve to mock data. The
  generator throws a \<^verbatim>\<open>TypeError\<close> inside the \<^verbatim>\<open>try\<close> block and again inside the
  \<^verbatim>\<open>catch\<close> block, the promise rejects with it, and nothing is cached.
\<close>

theorem no_config_inherited_name_throws:
  assumes "validateStockSymbol symbol" and "missed env symbol app" and "\<not> configured cfg"
    and "basePrices symbol = Inherited"
  shows "fetchStockData cfg env symbol True app =
           (Inl (TypeError ''basePrice.toFixed is not a function''),
            (afterMiss env symbol app)\<lparr> performanceMonitor :=
               recordError (performanceMonitor (afterMiss env symbol app))
                 (TypeError ''basePrice.toFixed is not a function'') ''stock_fetch'' \<rparr>)"
  by (simp add: fetchStockData_def try_no_config [OF assms(1-3)] mock_inherited [OF assms(4)]
      fetchStockData_catch_def)


text \<open>The valid identifier \<open>toString\<close>, on the application at its start.\<close>

theorem no_config_inherited_name_throws_witness:
  "validateStockSymbol ''toString''
   \<and> fst (fetchStockData noConfig sampleEnv ''toString'' True freshApp)
       = Inl (TypeError ''basePrice.toFixed is not a function'')
   \<and> cache (cacheManager (snd (fetchStockData noConfig sampleEnv ''toString'' True freshApp))) = []"
  using valid_toString
    no_config_inherited_name_throws [OF valid_toString missed_fresh not_configured_noConfig
      inherited_toString, of sampleEnv]
  by (simp add: afterMiss_def freshApp_def new_CacheManager_def CacheManager_get_def)

end
